theory Spec2Isabelle
  imports Complex_Main "HOL-Library.Word" "HOL-Library.AList"
begin

section \<open>Data model\<close>

text \<open>
  The stamp converter works on PIL images and numpy arrays of unsigned bytes. A pixel is
  a tuple of bytes, an image is its size together with its pixels in row-major order
  (the layout of the \<^verbatim>\<open>(H, W, 4)\<close> array; \<^verbatim>\<open>pixels[x, y]\<close> is entry
  \<open>y * width + x\<close>). Every image of the pipeline is RGBA: \<^verbatim>\<open>prepare_image\<close>
  converts the input before any other stage runs, so the branches of the source for
  images without an alpha channel are not part of the model.

  Python floats are idealised as rationals. Where a float only ever holds an integer
  small enough to be exact (the float32 distances of the colour matcher) the model
  computes that integer.
\<close>

type_synonym byte = "8 word"
type_synonym rgb = "byte \<times> byte \<times> byte"
type_synonym rgba = "byte \<times> byte \<times> byte \<times> byte"
type_synonym itriple = "int \<times> int \<times> int"

datatype error = ValueError | IndexError | KeyError | CvError

record image =
  width :: nat
  height :: nat
  pixels :: "rgba list"

definition wf_image :: "image \<Rightarrow> bool" where
  "wf_image img \<longleftrightarrow>
     0 < width img \<and> 0 < height img \<and> length (pixels img) = width img * height img"

fun rgb_of :: "rgba \<Rightarrow> rgb" where
  "rgb_of (r, g, b, a) = (r, g, b)"

fun alpha_of :: "rgba \<Rightarrow> byte" where
  "alpha_of (r, g, b, a) = a"

fun with_alpha :: "rgb \<Rightarrow> byte \<Rightarrow> rgba" where
  "with_alpha (r, g, b) a = (r, g, b, a)"

text \<open>\<^verbatim>\<open>pixels[x, y]\<close> of PIL's pixel access: out of range raises \<^verbatim>\<open>IndexError\<close>.\<close>

definition getpixel :: "image \<Rightarrow> nat \<Rightarrow> nat \<Rightarrow> error + rgba" where
  "getpixel img x y =
     (if x < width img \<and> y < height img \<and> y * width img + x < length (pixels img)
      then Inr (pixels img ! (y * width img + x)) else Inl IndexError)"

text \<open>
  The colour key is the dictionary built by \<^verbatim>\<open>build_color_key\<close>: colour number to
  RGB triple, in insertion order (the order of \<^verbatim>\<open>list(color_key.keys())\<close>).
\<close>

type_synonym color_key = "(int \<times> rgb) list"

fun map_err :: "('a \<Rightarrow> error + 'b) \<Rightarrow> 'a list \<Rightarrow> error + 'b list" where
  "map_err f [] = Inr []"
| "map_err f (x # xs) =
     (case f x of
        Inl e \<Rightarrow> Inl e
      | Inr y \<Rightarrow> (case map_err f xs of Inl e \<Rightarrow> Inl e | Inr ys \<Rightarrow> Inr (y # ys)))"

text \<open>A loop over a list that threads a state and stops at the first exception.\<close>

fun fold_err :: "('a \<Rightarrow> 's \<Rightarrow> error + 's) \<Rightarrow> 'a list \<Rightarrow> 's \<Rightarrow> error + 's" where
  "fold_err f [] s = Inr s"
| "fold_err f (x # xs) s = (case f x s of Inl e \<Rightarrow> Inl e | Inr s' \<Rightarrow> fold_err f xs s')"

text \<open>
  \<^verbatim>\<open>for y in range(height): for x in range(width):\<close> visits the coordinates in
  raster order.
\<close>

definition raster :: "nat \<Rightarrow> nat \<Rightarrow> (nat \<times> nat) list" where
  "raster w h = concat (map (\<lambda>y. map (\<lambda>x. (x, y)) [0..<w]) [0..<h])"

section \<open>Palette\<close>

text \<open>
  \<^verbatim>\<open>build_color_key(color_key_array)\<close>. An entry of the array carries its number and
  its hex code (boost and threshold are not read here). \<^verbatim>\<open>lstrip('#')\<close> removes every
  leading \<open>#\<close>; the three slices \<^verbatim>\<open>hex_code[i:i+2]\<close> are the character pairs at 0, 2
  and 4 (shorter when the string is short). \<^verbatim>\<open>int(s, 16)\<close> is modelled on strings of
  hex digits, which is what the palettes of the program hold; anything else, the empty
  slice included, is a \<^verbatim>\<open>ValueError\<close> here (Python's \<^verbatim>\<open>int\<close> would also accept a
  sign or surrounding blanks). A later entry with the same number overwrites the value
  and keeps the position of the first, as a Python dictionary does.
\<close>

record palette_entry =
  number :: int
  hex :: string

definition hex_digit :: "char \<Rightarrow> nat option" where
  "hex_digit c =
     (let n = of_char c :: nat
      in if 48 \<le> n \<and> n \<le> 57 then Some (n - 48)
         else if 97 \<le> n \<and> n \<le> 102 then Some (n - 87)
         else if 65 \<le> n \<and> n \<le> 70 then Some (n - 55)
         else None)"

fun int16 :: "string \<Rightarrow> error + nat" where
  "int16 [c] = (case hex_digit c of None \<Rightarrow> Inl ValueError | Some d \<Rightarrow> Inr d)"
| "int16 [c, c'] =
     (case (hex_digit c, hex_digit c') of
        (Some d, Some d') \<Rightarrow> Inr (16 * d + d')
      | _ \<Rightarrow> Inl ValueError)"
| "int16 _ = Inl ValueError"

definition hex_to_rgb :: "string \<Rightarrow> error + rgb" where
  "hex_to_rgb h =
     (let hex_code = dropWhile (\<lambda>c. c = CHR ''#'') h
      in case int16 (take 2 hex_code) of
           Inl e \<Rightarrow> Inl e
         | Inr r \<Rightarrow>
             (case int16 (take 2 (drop 2 hex_code)) of
                Inl e \<Rightarrow> Inl e
              | Inr g \<Rightarrow>
                  (case int16 (take 2 (drop 4 hex_code)) of
                     Inl e \<Rightarrow> Inl e
                   | Inr b \<Rightarrow> Inr (of_nat r, of_nat g, of_nat b))))"

fun build_color_key_from :: "color_key \<Rightarrow> palette_entry list \<Rightarrow> error + color_key" where
  "build_color_key_from color_key [] = Inr color_key"
| "build_color_key_from color_key (item # items) =
     (case hex_to_rgb (hex item) of
        Inl e \<Rightarrow> Inl e
      | Inr rgb \<Rightarrow> build_color_key_from (AList.update (number item) rgb color_key) items)"

definition build_color_key :: "palette_entry list \<Rightarrow> error + color_key" where
  "build_color_key color_key_array = build_color_key_from [] color_key_array"

section \<open>Colour matcher\<close>

text \<open>
  \<^verbatim>\<open>np.argmin\<close>: the index of the first occurrence of the minimum; an empty
  sequence raises \<^verbatim>\<open>ValueError\<close>. The scan keeps the best index and value seen so
  far and replaces them only on a strictly smaller value.
\<close>

fun argmin_from :: "nat \<Rightarrow> int \<Rightarrow> nat \<Rightarrow> int list \<Rightarrow> nat" where
  "argmin_from best bv i [] = best"
| "argmin_from best bv i (d # ds) =
     (if d < bv then argmin_from i d (Suc i) ds else argmin_from best bv (Suc i) ds)"

definition argmin :: "int list \<Rightarrow> error + nat" where
  "argmin ds = (case ds of [] \<Rightarrow> Inl ValueError | d # ds' \<Rightarrow> Inr (argmin_from 0 d 1 ds'))"

text \<open>
  \<^verbatim>\<open>.astype(np.float32)\<close> of a byte triple, and \<^verbatim>\<open>np.sum(diff**2, axis=1)\<close> for
  one row. Every difference is an integer of magnitude at most 255 and the sum of the
  three squares is at most 195075, which float32 represents exactly: the float result is
  the integer computed here. The first argument is the minuend.
\<close>

fun f32 :: "rgb \<Rightarrow> itriple" where
  "f32 (r, g, b) = (uint r, uint g, uint b)"

fun sum_sq_diff :: "itriple \<Rightarrow> itriple \<Rightarrow> int" where
  "sum_sq_diff (a0, a1, a2) (b0, b1, b2) = (a0 - b0)\<^sup>2 + (a1 - b1)\<^sup>2 + (a2 - b2)\<^sup>2"

text \<open>
  \<^verbatim>\<open>find_closest_color(pixel, color_key)\<close>. The global \<^verbatim>\<open>use_lab\<close> is the first
  parameter; \<^verbatim>\<open>cv2.cvtColor(., COLOR_RGB2LAB)\<close> on byte data is a function of OpenCV
  that maps each pixel on its own, taken as the parameter \<open>rgb2lab\<close>. OpenCV refuses an
  empty array, which is what \<^verbatim>\<open>rgb_palette_to_lab\<close> hands it for an empty colour key;
  in RGB mode the subtraction of a \<^verbatim>\<open>(3,)\<close> array from the \<^verbatim>\<open>(0,)\<close> array of an
  empty colour key cannot broadcast and raises \<^verbatim>\<open>ValueError\<close>.
\<close>

definition find_closest_color :: "bool \<Rightarrow> (rgb \<Rightarrow> rgb) \<Rightarrow> rgb \<Rightarrow> color_key \<Rightarrow> error + int" where
  "find_closest_color use_lab rgb2lab pixel color_key =
     (let color_nums = map fst color_key;
          color_values_rgb = map snd color_key
      in if use_lab then
           (let pixel_lab = rgb2lab pixel
            in if color_values_rgb = [] then Inl CvError
               else
                 (let color_values_lab = map rgb2lab color_values_rgb;
                      dist_sq = map (\<lambda>c. sum_sq_diff (f32 c) (f32 pixel_lab)) color_values_lab
                  in case argmin dist_sq of Inl e \<Rightarrow> Inl e | Inr idx \<Rightarrow> Inr (color_nums ! idx)))
         else
           (if color_values_rgb = [] then Inl ValueError
            else
              (let pixel_f = f32 pixel;
                   colors_f = map f32 color_values_rgb;
                   dist_sq = map (\<lambda>c. sum_sq_diff c pixel_f) colors_f
               in case argmin dist_sq of Inl e \<Rightarrow> Inl e | Inr idx \<Rightarrow> Inr (color_nums ! idx))))"

text \<open>
  \<^verbatim>\<open>find_closest_colors_image(image_array, color_key)\<close>: the whole image against the
  whole palette. The distance matrix has one row per pixel and one column per palette
  entry; here the pixel is the minuend. \<^verbatim>\<open>np.argmin(dist_sq, axis=1)\<close> is the row-wise
  argmin, and the result holds the palette's RGB values with the alpha channel put back.
  With an empty colour key \<^verbatim>\<open>colors_f[None, :, :]\<close> indexes a one-dimensional array
  with three indices (\<^verbatim>\<open>IndexError\<close>).
\<close>

definition find_closest_colors_image :: "bool \<Rightarrow> (rgb \<Rightarrow> rgb) \<Rightarrow> image \<Rightarrow> color_key \<Rightarrow> error + image" where
  "find_closest_colors_image use_lab rgb2lab image_array color_key =
     (let rgb_data = map rgb_of (pixels image_array);
          alpha_channel = map alpha_of (pixels image_array);
          color_values_rgb = map snd color_key
      in if use_lab then
           (if rgb_data = [] then Inl CvError
            else
              (let lab_data = map rgb2lab rgb_data
               in if color_values_rgb = [] then Inl CvError
                  else
                    (let color_values_lab = map f32 (map rgb2lab color_values_rgb);
                         lab_flat = map f32 lab_data;
                         dist_sq = map (\<lambda>p. map (\<lambda>c. sum_sq_diff p c) color_values_lab) lab_flat
                     in case map_err argmin dist_sq of
                          Inl e \<Rightarrow> Inl e
                        | Inr closest_indices \<Rightarrow>
                            Inr (image_array\<lparr>pixels :=
                              map2 with_alpha (map (\<lambda>i. color_values_rgb ! i) closest_indices) alpha_channel\<rparr>))))
         else
           (if color_values_rgb = [] then Inl IndexError
            else
              (let flat_rgb = map f32 rgb_data;
                   colors_f = map f32 color_values_rgb;
                   dist_sq = map (\<lambda>p. map (\<lambda>c. sum_sq_diff p c) colors_f) flat_rgb
               in case map_err argmin dist_sq of
                    Inl e \<Rightarrow> Inl e
                  | Inr closest_indices \<Rightarrow>
                      Inr (image_array\<lparr>pixels :=
                        map2 with_alpha (map (\<lambda>i. color_values_rgb ! i) closest_indices) alpha_channel\<rparr>))))"

text \<open>
  The squared Euclidean distance between a palette colour and a pixel in the colour space
  of the mode, and the entry the specification calls nearest: the first one, in the
  order of the palette, whose distance is the minimum.
\<close>

definition color_dist :: "bool \<Rightarrow> (rgb \<Rightarrow> rgb) \<Rightarrow> rgb \<Rightarrow> rgb \<Rightarrow> int" where
  "color_dist use_lab rgb2lab c p =
     (if use_lab then sum_sq_diff (f32 (rgb2lab c)) (f32 (rgb2lab p))
      else sum_sq_diff (f32 c) (f32 p))"

definition first_min_index :: "int list \<Rightarrow> nat" where
  "first_min_index ds = length (takeWhile (\<lambda>d. d \<noteq> Min (set ds)) ds)"

definition nearest_number :: "bool \<Rightarrow> (rgb \<Rightarrow> rgb) \<Rightarrow> color_key \<Rightarrow> rgb \<Rightarrow> int" where
  "nearest_number use_lab rgb2lab color_key p =
     fst (color_key ! first_min_index (map (\<lambda>e. color_dist use_lab rgb2lab (snd e) p) color_key))"

definition nearest_rgb :: "bool \<Rightarrow> (rgb \<Rightarrow> rgb) \<Rightarrow> color_key \<Rightarrow> rgb \<Rightarrow> rgb" where
  "nearest_rgb use_lab rgb2lab color_key p =
     snd (color_key ! first_min_index (map (\<lambda>e. color_dist use_lab rgb2lab (snd e) p) color_key))"

section \<open>Static encoder\<close>

text \<open>
  A line of \<^verbatim>\<open>stamp.txt\<close> or \<^verbatim>\<open>frames.txt\<close>, by its fields:
  \<^verbatim>\<open>w,h,img\<close>, \<^verbatim>\<open>w,h,gif,frames,delay\<close>, \<^verbatim>\<open>x,y,n\<close> and
  \<^verbatim>\<open>frame,n[,delay]\<close>.
\<close>

datatype line =
  ImgHeader rat rat
| GifHeader rat rat nat int
| Point rat rat int
| FrameHeader nat "int option"

text \<open>
  \<^verbatim>\<open>round(v, 1)\<close> rounds to one decimal place, ties to the even neighbour, and
  \<^verbatim>\<open>round(n * 0.1, 1)\<close> is what every coordinate and size goes through. In binary
  floating point \<open>n * 0.1\<close> misses \<open>n / 10\<close> by less than one unit in the last place
  and \<^verbatim>\<open>round\<close> returns the float that prints as the decimal \<open>n / 10\<close>; over the
  rationals the product is already that number.
\<close>

definition round_half_even :: "rat \<Rightarrow> int" where
  "round_half_even q =
     (let f = \<lfloor>q\<rfloor>; d = q - of_int f
      in if d < 1 / 2 then f else if 1 / 2 < d then f + 1 else if even f then f else f + 1)"

definition round1 :: "rat \<Rightarrow> rat" where
  "round1 v = of_int (round_half_even (v * 10)) / 10"

definition scaled :: "nat \<Rightarrow> rat" where
  "scaled n = round1 (of_nat n * (1 / 10))"

text \<open>
  The two loop shapes of the encoders, for bodies that write lines:
  \<^verbatim>\<open>for i in range(n)\<close> and \<^verbatim>\<open>for i in range(n - 1, -1, -1)\<close>.
\<close>

primrec for_range :: "nat \<Rightarrow> (nat \<Rightarrow> 'a list) \<Rightarrow> 'a list" where
  "for_range 0 body = []"
| "for_range (Suc n) body = for_range n body @ body n"

primrec for_range_down :: "nat \<Rightarrow> (nat \<Rightarrow> 'a list) \<Rightarrow> 'a list" where
  "for_range_down 0 body = []"
| "for_range_down (Suc n) body = body n @ for_range_down n body"

text \<open>
  The body of the pixel loop of \<^verbatim>\<open>process_and_save_image\<close>. It runs inside
  \<^verbatim>\<open>try ... except Exception\<close>, which reports the pixel and goes on: an exception of
  the pixel access or of the colour matcher writes no line.
\<close>

definition stamp_pixel :: "bool \<Rightarrow> (rgb \<Rightarrow> rgb) \<Rightarrow> image \<Rightarrow> color_key \<Rightarrow> nat \<Rightarrow> nat \<Rightarrow> nat \<Rightarrow> line list" where
  "stamp_pixel use_lab rgb2lab img color_key h y x =
     (case getpixel img x y of
        Inl e \<Rightarrow> []
      | Inr (r, g, b, a) \<Rightarrow>
          if a \<le> 191 then []
          else
            (case find_closest_color use_lab rgb2lab (r, g, b) color_key of
               Inl e \<Rightarrow> []
             | Inr closest_color_num \<Rightarrow>
                 [Point (scaled x) (scaled (h - 1 - y)) closest_color_num]))"

text \<open>
  The lines written to \<^verbatim>\<open>stamp.txt\<close> by \<^verbatim>\<open>process_and_save_image\<close>, from the
  image it has after cropping.
\<close>

definition write_stamp :: "bool \<Rightarrow> (rgb \<Rightarrow> rgb) \<Rightarrow> image \<Rightarrow> color_key \<Rightarrow> line list" where
  "write_stamp use_lab rgb2lab img color_key =
     (let w = width img; h = height img;
          scaled_width = round1 (of_nat w * (1 / 10));
          scaled_height = round1 (of_nat h * (1 / 10))
      in ImgHeader scaled_width scaled_height #
         for_range_down h (\<lambda>y.
           for_range w (\<lambda>x. stamp_pixel use_lab rgb2lab img color_key h y x)))"

text \<open>
  The transparency filter that precedes the preview and the stamp: every pixel with
  alpha at most 191 becomes \<open>(0, 0, 0, 0)\<close>; each pixel is read and written once.
\<close>

definition filter_transparent :: "image \<Rightarrow> image" where
  "filter_transparent img =
     img\<lparr>pixels := map (\<lambda>pixel. if alpha_of pixel \<le> 191 then (0, 0, 0, 0) else pixel) (pixels img)\<rparr>"

text \<open>
  \<^verbatim>\<open>crop_to_solid_area\<close>. PIL's \<^verbatim>\<open>getbbox\<close> on the alpha band is the box
  \<open>(left, upper, right, lower)\<close> around the non-zero entries, right and lower excluded,
  or \<^verbatim>\<open>None\<close> when there is none; \<^verbatim>\<open>crop\<close> copies that box.
\<close>

definition alpha_at :: "image \<Rightarrow> nat \<Rightarrow> nat \<Rightarrow> byte" where
  "alpha_at img x y = alpha_of (pixels img ! (y * width img + x))"

definition getbbox :: "image \<Rightarrow> (nat \<times> nat \<times> nat \<times> nat) option" where
  "getbbox img =
     (let cols = filter (\<lambda>x. list_ex (\<lambda>y. alpha_at img x y \<noteq> 0) [0..<height img]) [0..<width img];
          rows = filter (\<lambda>y. list_ex (\<lambda>x. alpha_at img x y \<noteq> 0) [0..<width img]) [0..<height img]
      in if cols = [] \<or> rows = [] then None
         else Some (hd cols, hd rows, Suc (last cols), Suc (last rows)))"

fun crop :: "image \<Rightarrow> nat \<times> nat \<times> nat \<times> nat \<Rightarrow> image" where
  "crop img (left, upper, right, lower) =
     \<lparr>width = right - left, height = lower - upper,
      pixels = concat (map (\<lambda>y. map (\<lambda>x. pixels img ! (y * width img + x)) [left..<right])
                        [upper..<lower])\<rparr>"

definition crop_to_solid_area :: "image \<Rightarrow> image" where
  "crop_to_solid_area img =
     (case getbbox img of
        Some bbox \<Rightarrow> crop img bbox
      | None \<Rightarrow> \<lparr>width = 1, height = 1, pixels = [(0, 0, 0, 0)]\<rparr>)"

text \<open>
  \<^verbatim>\<open>process_and_save_image\<close> from the processed image on: filter, crop, write.
\<close>

definition save_image :: "bool \<Rightarrow> (rgb \<Rightarrow> rgb) \<Rightarrow> image \<Rightarrow> color_key \<Rightarrow> line list" where
  "save_image use_lab rgb2lab img color_key =
     write_stamp use_lab rgb2lab (crop_to_solid_area (filter_transparent img)) color_key"

text \<open>
  What the specification says the stamp of an image is: the header, then for the rows
  from the last to the first and the columns from left to right one point for each pixel
  whose alpha exceeds 191, at a tenth of \<open>x\<close> and of the row counted from the bottom.
\<close>

definition spec_point :: "bool \<Rightarrow> (rgb \<Rightarrow> rgb) \<Rightarrow> image \<Rightarrow> color_key \<Rightarrow> nat \<Rightarrow> nat \<Rightarrow> line list" where
  "spec_point use_lab rgb2lab img color_key y x =
     (let p = pixels img ! (y * width img + x)
      in if 191 < alpha_of p
         then [Point (of_nat x / 10) (of_nat (height img - 1 - y) / 10)
                 (nearest_number use_lab rgb2lab color_key (rgb_of p))]
         else [])"

definition spec_stamp :: "bool \<Rightarrow> (rgb \<Rightarrow> rgb) \<Rightarrow> image \<Rightarrow> color_key \<Rightarrow> line list" where
  "spec_stamp use_lab rgb2lab img color_key =
     ImgHeader (of_nat (width img) / 10) (of_nat (height img) / 10) #
     concat (map (\<lambda>y. concat (map (\<lambda>x. spec_point use_lab rgb2lab img color_key y x) [0..<width img]))
               (rev [0..<height img]))"

text \<open>
  \<^verbatim>\<open>color_matching\<close> (the method \<open>Color Match\<close>): the batched classifier on every
  pixel, then the pixels outside the opaque mask take their original value back.
\<close>

definition color_matching :: "bool \<Rightarrow> (rgb \<Rightarrow> rgb) \<Rightarrow> image \<Rightarrow> color_key \<Rightarrow> error + image" where
  "color_matching use_lab rgb2lab img color_key =
     (let alpha_threshold = 191;
          opaque_mask = map (\<lambda>p. alpha_threshold < alpha_of p) (pixels img)
      in case find_closest_colors_image use_lab rgb2lab img color_key of
           Inl e \<Rightarrow> Inl e
         | Inr mapped \<Rightarrow>
             Inr (mapped\<lparr>pixels :=
               map (\<lambda>(m, (opaque, orig)). if opaque then m else orig)
                 (zip (pixels mapped) (zip opaque_mask (pixels img)))\<rparr>))"

text \<open>
  \<^verbatim>\<open>preprocess_image\<close>, as far as the alpha channel decides: the opaque mask, which
  selects the pixels that enter the percentile statistics, and the final recomposition.
  The tone steps between them are calls into OpenCV; they are the parameter \<open>tone\<close>,
  which receives the RGB data and the mask and returns the adjusted RGB data.
\<close>

definition opaque_mask :: "image \<Rightarrow> bool list" where
  "opaque_mask img = map (\<lambda>p. 191 \<le> alpha_of p) (pixels img)"

definition preprocess_image :: "(rgb list \<Rightarrow> bool list \<Rightarrow> rgb list) \<Rightarrow> image \<Rightarrow> image" where
  "preprocess_image tone img =
     (let alpha_channel = map alpha_of (pixels img);
          rgb_image = tone (map rgb_of (pixels img)) (opaque_mask img)
      in img\<lparr>pixels :=
           map (\<lambda>(new, (opaque, orig)). with_alpha (if opaque then new else rgb_of orig) (alpha_of orig))
             (zip rgb_image (zip (opaque_mask img) (pixels img)))\<rparr>)"

section \<open>Dithering engine\<close>

text \<open>
  The error-diffusion loops work on a copy of the image as an \<^verbatim>\<open>int16\<close> array; an
  entry is a quadruple of integers. \<^verbatim>\<open>int(v)\<close> truncates towards zero, and
  \<^verbatim>\<open>np.clip(., 0, 255).astype(np.uint8)\<close> brings the array back to bytes. Strength,
  kernel weights and the error terms are floats, idealised as rationals.
\<close>

type_synonym ipixel = "int \<times> int \<times> int \<times> int"
type_synonym kernel = "(int \<times> int \<times> rat) list"
type_synonym params = "string \<Rightarrow> rat option"

fun to_int16 :: "rgba \<Rightarrow> ipixel" where
  "to_int16 (r, g, b, a) = (uint r, uint g, uint b, uint a)"

definition clip_byte :: "int \<Rightarrow> byte" where
  "clip_byte v = word_of_int (max 0 (min 255 v))"

fun clip_pixel :: "ipixel \<Rightarrow> rgba" where
  "clip_pixel (r, g, b, a) = (clip_byte r, clip_byte g, clip_byte b, clip_byte a)"

definition py_int :: "rat \<Rightarrow> int" where
  "py_int q = (if 0 \<le> q then \<lfloor>q\<rfloor> else \<lceil>q\<rceil>)"

definition clamp255 :: "rat \<Rightarrow> int" where
  "clamp255 v = py_int (min (max v 0) 255)"

fun u8 :: "itriple \<Rightarrow> rgb" where
  "u8 (r, g, b) = (word_of_int r, word_of_int g, word_of_int b)"

definition get_strength :: "params \<Rightarrow> rat" where
  "get_strength params = (case params ''strength'' of None \<Rightarrow> 1 | Some s \<Rightarrow> s)"

text \<open>
  The local \<^verbatim>\<open>closest_color_func\<close> of the dithering functions: the index of the
  nearest palette entry for a pixel given by its three channel values. In LAB mode the
  values are cast to bytes for OpenCV. With an empty colour key the subtraction in RGB
  mode cannot broadcast (\<^verbatim>\<open>ValueError\<close>, which is also what the empty argmin gives
  here); in LAB mode the callers have failed before the first call.
\<close>

definition closest_color_func :: "bool \<Rightarrow> (rgb \<Rightarrow> rgb) \<Rightarrow> rgb list \<Rightarrow> itriple \<Rightarrow> error + nat" where
  "closest_color_func use_lab rgb2lab color_values_rgb pixel_rgb =
     (if use_lab then
        (let color_values_lab = map f32 (map rgb2lab color_values_rgb);
             p_lab = f32 (rgb2lab (u8 pixel_rgb))
         in argmin (map (\<lambda>c. sum_sq_diff c p_lab) color_values_lab))
      else
        (let p_f = pixel_rgb
         in argmin (map (\<lambda>c. sum_sq_diff c p_f) (map f32 color_values_rgb))))"

text \<open>
  The inner loop over the diffusion matrix: each offset that lies inside the image and
  whose target is set in the alpha mask receives its share of the error, clamped to
  \<open>[0, 255]\<close> at once.
\<close>

fun diffuse :: "nat \<Rightarrow> nat \<Rightarrow> bool list \<Rightarrow> rat \<times> rat \<times> rat \<Rightarrow> nat \<Rightarrow> nat \<Rightarrow> kernel \<Rightarrow> ipixel list \<Rightarrow> ipixel list" where
  "diffuse w h alpha_mask quant_error x y [] img_array = img_array"
| "diffuse w h alpha_mask quant_error x y ((dx, dy, coeff) # rest) img_array =
     (let nx = int x + dx; ny = int y + dy
      in if 0 \<le> nx \<and> nx < int w \<and> 0 \<le> ny \<and> ny < int h \<and> alpha_mask ! (nat ny * w + nat nx)
         then
           (case (img_array ! (nat ny * w + nat nx), quant_error) of
              ((n0, n1, n2, n3), (e0, e1, e2)) \<Rightarrow>
                (let nr = of_int n0 + e0 * coeff;
                     ng = of_int n1 + e1 * coeff;
                     nb = of_int n2 + e2 * coeff
                 in diffuse w h alpha_mask quant_error x y rest
                      (img_array[nat ny * w + nat nx := (clamp255 nr, clamp255 ng, clamp255 nb, n3)])))
         else diffuse w h alpha_mask quant_error x y rest img_array)"

text \<open>
  The body of the raster loop of \<^verbatim>\<open>optimized_error_diffusion_dithering\<close> for the
  pixel \<open>(x, y)\<close>: skip it when the mask is unset, else quantise it, write the palette
  colour into the three colour channels and diffuse the error.
\<close>

definition diffusion_step :: "bool \<Rightarrow> (rgb \<Rightarrow> rgb) \<Rightarrow> rgb list \<Rightarrow> bool list \<Rightarrow> nat \<Rightarrow> nat \<Rightarrow> rat \<Rightarrow> kernel \<Rightarrow> nat \<times> nat \<Rightarrow> ipixel list \<Rightarrow> error + ipixel list" where
  "diffusion_step use_lab rgb2lab color_values_rgb alpha_mask w h strength diffusion_matrix xy img_array =
     (case xy of (x, y) \<Rightarrow>
      if \<not> alpha_mask ! (y * w + x) then Inr img_array
      else
        (case img_array ! (y * w + x) of (o0, o1, o2, o3) \<Rightarrow>
           (case closest_color_func use_lab rgb2lab color_values_rgb (o0, o1, o2) of
              Inl e \<Rightarrow> Inl e
            | Inr idx \<Rightarrow>
                (case f32 (color_values_rgb ! idx) of (n0, n1, n2) \<Rightarrow>
                   (let quant_error = (of_int (o0 - n0) * strength, of_int (o1 - n1) * strength,
                                       of_int (o2 - n2) * strength)
                    in Inr (diffuse w h alpha_mask quant_error x y diffusion_matrix
                              (img_array[y * w + x := (n0, n1, n2, o3)])))))))"

text \<open>
  \<^verbatim>\<open>optimized_error_diffusion_dithering(img, color_key, strength, diffusion_matrix)\<close>.
  In LAB mode the palette is converted before the loop, which fails on an empty colour
  key.
\<close>

definition optimized_error_diffusion_dithering :: "bool \<Rightarrow> (rgb \<Rightarrow> rgb) \<Rightarrow> image \<Rightarrow> color_key \<Rightarrow> rat \<Rightarrow> kernel \<Rightarrow> error + image" where
  "optimized_error_diffusion_dithering use_lab rgb2lab img color_key strength diffusion_matrix =
     (let img_array = map to_int16 (pixels img);
          alpha_mask = map (\<lambda>p. 0 < alpha_of p) (pixels img);
          color_values_rgb = map snd color_key
      in if use_lab \<and> color_values_rgb = [] then Inl CvError
         else
           (case fold_err
                   (diffusion_step use_lab rgb2lab color_values_rgb alpha_mask (width img) (height img)
                      strength diffusion_matrix)
                   (raster (width img) (height img)) img_array of
              Inl e \<Rightarrow> Inl e
            | Inr img_array' \<Rightarrow> Inr (img\<lparr>pixels := map clip_pixel img_array'\<rparr>)))"

text \<open>The registered error-diffusion methods and their kernels.\<close>

definition atkinson_matrix :: kernel where
  "atkinson_matrix =
     [(1, 0, 1 / 8), (2, 0, 1 / 8),
      (- 1, 1, 1 / 8), (0, 1, 1 / 8), (1, 1, 1 / 8),
      (0, 2, 1 / 8)]"

definition floyd_steinberg_matrix :: kernel where
  "floyd_steinberg_matrix =
     [(1, 0, 7 / 16),
      (- 1, 1, 3 / 16), (0, 1, 5 / 16), (1, 1, 1 / 16)]"

definition stucki_matrix :: kernel where
  "stucki_matrix =
     [(1, 0, 8 / 42), (2, 0, 4 / 42),
      (- 2, 1, 2 / 42), (- 1, 1, 4 / 42), (0, 1, 8 / 42), (1, 1, 4 / 42), (2, 1, 2 / 42),
      (- 2, 2, 1 / 42), (- 1, 2, 2 / 42), (0, 2, 4 / 42), (1, 2, 2 / 42), (2, 2, 1 / 42)]"

definition jarvis_matrix :: kernel where
  "jarvis_matrix =
     [(1, 0, 7 / 48), (2, 0, 5 / 48),
      (- 2, 1, 3 / 48), (- 1, 1, 5 / 48), (0, 1, 7 / 48), (1, 1, 5 / 48), (2, 1, 3 / 48),
      (- 2, 2, 1 / 48), (- 1, 2, 3 / 48), (0, 2, 5 / 48), (1, 2, 3 / 48), (2, 2, 1 / 48)]"

definition sierra2_matrix :: kernel where
  "sierra2_matrix =
     [(1, 0, 4 / 16), (2, 0, 3 / 16),
      (- 2, 1, 1 / 16), (- 1, 1, 2 / 16), (0, 1, 3 / 16), (1, 1, 2 / 16), (2, 1, 1 / 16)]"

definition atkinson_dithering :: "bool \<Rightarrow> (rgb \<Rightarrow> rgb) \<Rightarrow> image \<Rightarrow> color_key \<Rightarrow> params \<Rightarrow> error + image" where
  "atkinson_dithering use_lab rgb2lab img color_key params =
     optimized_error_diffusion_dithering use_lab rgb2lab img color_key (get_strength params) atkinson_matrix"

definition stucki_dithering :: "bool \<Rightarrow> (rgb \<Rightarrow> rgb) \<Rightarrow> image \<Rightarrow> color_key \<Rightarrow> params \<Rightarrow> error + image" where
  "stucki_dithering use_lab rgb2lab img color_key params =
     optimized_error_diffusion_dithering use_lab rgb2lab img color_key (get_strength params) stucki_matrix"

definition floyd_steinberg_dithering :: "bool \<Rightarrow> (rgb \<Rightarrow> rgb) \<Rightarrow> image \<Rightarrow> color_key \<Rightarrow> params \<Rightarrow> error + image" where
  "floyd_steinberg_dithering use_lab rgb2lab img color_key params =
     optimized_error_diffusion_dithering use_lab rgb2lab img color_key (get_strength params)
       floyd_steinberg_matrix"

definition jarvis_judice_ninke_dithering :: "bool \<Rightarrow> (rgb \<Rightarrow> rgb) \<Rightarrow> image \<Rightarrow> color_key \<Rightarrow> params \<Rightarrow> error + image" where
  "jarvis_judice_ninke_dithering use_lab rgb2lab img color_key params =
     optimized_error_diffusion_dithering use_lab rgb2lab img color_key (get_strength params) jarvis_matrix"

definition sierra2_dithering :: "bool \<Rightarrow> (rgb \<Rightarrow> rgb) \<Rightarrow> image \<Rightarrow> color_key \<Rightarrow> params \<Rightarrow> error + image" where
  "sierra2_dithering use_lab rgb2lab img color_key params =
     optimized_error_diffusion_dithering use_lab rgb2lab img color_key (get_strength params) sierra2_matrix"

text \<open>
  \<^verbatim>\<open>hybrid_dithering\<close>. The saliency map comes out of PIL's edge and blur filters,
  the parameter \<open>saliency_map\<close> (it returns one value per pixel, already divided by
  255). The raster loop repeats the loop above, with the kernel chosen per pixel by the
  saliency; the statement that writes the pixel's own alpha back is the identity.
\<close>

definition hybrid_dithering :: "bool \<Rightarrow> (rgb \<Rightarrow> rgb) \<Rightarrow> (image \<Rightarrow> rat list) \<Rightarrow> image \<Rightarrow> color_key \<Rightarrow> params \<Rightarrow> error + image" where
  "hybrid_dithering use_lab rgb2lab saliency_map img color_key params =
     (let strength = get_strength params;
          saliency_array = saliency_map img;
          img_array = map to_int16 (pixels img);
          color_values_rgb = map snd color_key;
          alpha_mask = map (\<lambda>p. 0 < alpha_of p) (pixels img)
      in if use_lab \<and> color_values_rgb = [] then Inl CvError
         else
           (case fold_err
                   (\<lambda>xy. case xy of (x, y) \<Rightarrow>
                      diffusion_step use_lab rgb2lab color_values_rgb alpha_mask (width img) (height img)
                        strength
                        (if 1 / 2 < saliency_array ! (y * width img + x)
                         then floyd_steinberg_matrix else atkinson_matrix)
                        (x, y))
                   (raster (width img) (height img)) img_array of
              Inl e \<Rightarrow> Inl e
            | Inr img_array' \<Rightarrow> Inr (img\<lparr>pixels := map clip_pixel img_array'\<rparr>)))"

text \<open>
  \<^verbatim>\<open>ordered_dithering\<close> (the method \<open>Pattern Dither\<close>). \<open>R\<close>, \<open>G\<close> and \<open>B\<close> are
  \<^verbatim>\<open>np.uint8\<close> scalars, so their sum wraps around at 256 before the division by 765.
\<close>

definition bayer_8x8 :: "nat list list" where
  "bayer_8x8 =
     [[0, 32, 8, 40, 2, 34, 10, 42],
      [48, 16, 56, 24, 50, 18, 58, 26],
      [12, 44, 4, 36, 14, 46, 6, 38],
      [60, 28, 52, 20, 62, 30, 54, 22],
      [3, 35, 11, 43, 1, 33, 9, 41],
      [51, 19, 59, 27, 49, 17, 57, 25],
      [15, 47, 7, 39, 13, 45, 5, 37],
      [63, 31, 55, 23, 61, 29, 53, 21]]"

definition tiled_bayer :: "nat \<Rightarrow> nat \<Rightarrow> rat" where
  "tiled_bayer y x = of_nat (bayer_8x8 ! (y mod 8) ! (x mod 8)) / 64"

definition adjust_rgb :: "rat \<Rightarrow> nat \<Rightarrow> nat \<Rightarrow> rgb \<Rightarrow> itriple" where
  "adjust_rgb adjustment_factor y x old_pixel =
     (case old_pixel of (R, G, B) \<Rightarrow>
        (let brightness = of_int (uint (R + G + B)) / 765;
             factor = (if brightness < tiled_bayer y x then 1 - adjustment_factor
                       else 1 + adjustment_factor)
         in (clamp255 (of_int (uint R) * factor), clamp255 (of_int (uint G) * factor),
             clamp255 (of_int (uint B) * factor))))"

definition adjust_lab :: "(rgb \<Rightarrow> rgb) \<Rightarrow> (rgb \<Rightarrow> rgb) \<Rightarrow> rat \<Rightarrow> nat \<Rightarrow> nat \<Rightarrow> rgb \<Rightarrow> itriple" where
  "adjust_lab rgb2lab lab2rgb adjustment_factor y x old_pixel =
     (case rgb2lab old_pixel of (l, a, b) \<Rightarrow>
        (let L = of_int (uint l) / 255;
             L_adj = (if L < tiled_bayer y x then max 0 (L - adjustment_factor)
                      else min 1 (L + adjustment_factor))
         in f32 (lab2rgb (word_of_int (py_int (L_adj * 255)), a, b))))"

definition ordered_step :: "bool \<Rightarrow> (rgb \<Rightarrow> rgb) \<Rightarrow> (rgb \<Rightarrow> rgb) \<Rightarrow> rgb list \<Rightarrow> bool list \<Rightarrow> nat \<Rightarrow> rat \<Rightarrow> nat \<times> nat \<Rightarrow> ipixel list \<Rightarrow> error + ipixel list" where
  "ordered_step use_lab rgb2lab lab2rgb color_values_rgb alpha_mask w adjustment_factor xy img_array =
     (case xy of (x, y) \<Rightarrow>
      if \<not> alpha_mask ! (y * w + x) then Inr img_array
      else
        (case img_array ! (y * w + x) of (o0, o1, o2, o3) \<Rightarrow>
           (let old_pixel = u8 (o0, o1, o2);
                pixel_rgb_adj = (if use_lab then adjust_lab rgb2lab lab2rgb adjustment_factor y x old_pixel
                                 else adjust_rgb adjustment_factor y x old_pixel)
            in case closest_color_func use_lab rgb2lab color_values_rgb pixel_rgb_adj of
                 Inl e \<Rightarrow> Inl e
               | Inr idx \<Rightarrow>
                   (case f32 (color_values_rgb ! idx) of (n0, n1, n2) \<Rightarrow>
                      Inr (img_array[y * w + x := (n0, n1, n2, o3)])))))"

definition ordered_dithering :: "bool \<Rightarrow> (rgb \<Rightarrow> rgb) \<Rightarrow> (rgb \<Rightarrow> rgb) \<Rightarrow> image \<Rightarrow> color_key \<Rightarrow> params \<Rightarrow> error + image" where
  "ordered_dithering use_lab rgb2lab lab2rgb img color_key params =
     (let strength = get_strength params;
          img_array = map to_int16 (pixels img);
          alpha_mask = map (\<lambda>p. 0 < alpha_of p) (pixels img);
          color_values_rgb = map snd color_key;
          adjustment_factor = (3 / 10) * strength
      in if use_lab \<and> color_values_rgb = [] then Inl CvError
         else
           (case fold_err
                   (ordered_step use_lab rgb2lab lab2rgb color_values_rgb alpha_mask (width img)
                      adjustment_factor)
                   (raster (width img) (height img)) img_array of
              Inl e \<Rightarrow> Inl e
            | Inr img_array' \<Rightarrow> Inr (img\<lparr>pixels := map clip_pixel img_array'\<rparr>)))"

text \<open>
  \<^verbatim>\<open>random_dithering\<close>. \<^verbatim>\<open>np.random.normal(0, s)\<close> draws from the generator of the
  process: the function has no parameter for it and reads nothing but \<open>strength\<close> from
  \<open>params\<close>. The generator is the stream \<open>noise\<close> of its standard normal draws from the
  current state on; the \<open>k\<close>-th call returns \<open>s * noise k\<close>. The state of the loop is the
  pixel buffer with the number of draws made so far.
\<close>

definition noisy :: "byte \<Rightarrow> rat \<Rightarrow> rat" where
  "noisy c n = min (max (of_int (uint c) + n) 0) 255"

definition random_step :: "bool \<Rightarrow> (rgb \<Rightarrow> rgb) \<Rightarrow> (rgb \<Rightarrow> rgb) \<Rightarrow> (nat \<Rightarrow> rat) \<Rightarrow> color_key \<Rightarrow> nat \<Rightarrow> rat \<Rightarrow> nat \<times> nat \<Rightarrow> rgba list \<times> nat \<Rightarrow> error + rgba list \<times> nat" where
  "random_step use_lab rgb2lab lab2rgb noise color_key w noise_std xy st =
     (case (xy, st) of ((x, y), (pix, k)) \<Rightarrow>
      (case pix ! (y * w + x) of (r, g, b, a) \<Rightarrow>
         if a = 0 then Inr (pix, k)
         else
           (let noisy_pixel =
                  (if use_lab then
                     (case rgb2lab (r, g, b) of (l0, l1, l2) \<Rightarrow>
                        (let l_noise = noisy l0 (noise_std * (1 / 2) * noise k);
                             a_noise = noisy l1 (noise_std * (1 / 4) * noise (k + 1));
                             b_noise = noisy l2 (noise_std * (1 / 4) * noise (k + 2))
                         in lab2rgb (word_of_int (py_int l_noise), word_of_int (py_int a_noise),
                                     word_of_int (py_int b_noise))))
                   else
                     (word_of_int (py_int (noisy r (noise_std * noise k))),
                      word_of_int (py_int (noisy g (noise_std * noise (k + 1)))),
                      word_of_int (py_int (noisy b (noise_std * noise (k + 2))))))
            in case find_closest_color use_lab rgb2lab noisy_pixel color_key of
                 Inl e \<Rightarrow> Inl e
               | Inr new_pixel_num \<Rightarrow>
                   (case map_of color_key new_pixel_num of
                      None \<Rightarrow> Inl KeyError
                    | Some new_pixel \<Rightarrow>
                        Inr (pix[y * w + x := with_alpha new_pixel a], k + 3)))))"

definition random_dithering :: "bool \<Rightarrow> (rgb \<Rightarrow> rgb) \<Rightarrow> (rgb \<Rightarrow> rgb) \<Rightarrow> (nat \<Rightarrow> rat) \<Rightarrow> image \<Rightarrow> color_key \<Rightarrow> params \<Rightarrow> error + image" where
  "random_dithering use_lab rgb2lab lab2rgb noise img color_key params =
     (let strength = get_strength params;
          noise_std = 32 * strength
      in case fold_err (random_step use_lab rgb2lab lab2rgb noise color_key (width img) noise_std)
                (raster (width img) (height img)) (pixels img, 0) of
           Inl e \<Rightarrow> Inl e
         | Inr (pix', k) \<Rightarrow> Inr (img\<lparr>pixels := pix'\<rparr>))"

text \<open>
  \<^verbatim>\<open>distribute_error\<close> and \<^verbatim>\<open>error_diffusion_dithering\<close>, the variant that works
  on PIL's pixel access: the neighbour's own alpha value is read each time.
\<close>

fun distribute_error :: "rgba list \<Rightarrow> nat \<Rightarrow> nat \<Rightarrow> nat \<Rightarrow> nat \<Rightarrow> rat \<times> rat \<times> rat \<Rightarrow> kernel \<Rightarrow> rgba list" where
  "distribute_error pix x y w h quant_error [] = pix"
| "distribute_error pix x y w h quant_error ((dx, dy, coefficient) # rest) =
     (let nx = int x + dx; ny = int y + dy
      in if 0 \<le> nx \<and> nx < int w \<and> 0 \<le> ny \<and> ny < int h
         then
           (case (pix ! (nat ny * w + nat nx), quant_error) of
              ((c0, c1, c2, c3), (e0, e1, e2)) \<Rightarrow>
                if c3 = 0 then distribute_error pix x y w h quant_error rest
                else
                  distribute_error
                    (pix[nat ny * w + nat nx :=
                       (word_of_int (clamp255 (of_int (uint c0) + e0 * coefficient)),
                        word_of_int (clamp255 (of_int (uint c1) + e1 * coefficient)),
                        word_of_int (clamp255 (of_int (uint c2) + e2 * coefficient)), c3)])
                    x y w h quant_error rest)
         else distribute_error pix x y w h quant_error rest)"

definition error_diffusion_step :: "bool \<Rightarrow> (rgb \<Rightarrow> rgb) \<Rightarrow> color_key \<Rightarrow> nat \<Rightarrow> nat \<Rightarrow> rat \<Rightarrow> kernel \<Rightarrow> nat \<times> nat \<Rightarrow> rgba list \<Rightarrow> error + rgba list" where
  "error_diffusion_step use_lab rgb2lab color_key w h strength diffusion_matrix xy pix =
     (case xy of (x, y) \<Rightarrow>
      (case pix ! (y * w + x) of (o0, o1, o2, o3) \<Rightarrow>
         if o3 = 0 then Inr pix
         else
           (case find_closest_color use_lab rgb2lab (o0, o1, o2) color_key of
              Inl e \<Rightarrow> Inl e
            | Inr new_pixel_num \<Rightarrow>
                (case map_of color_key new_pixel_num of
                   None \<Rightarrow> Inl KeyError
                 | Some (n0, n1, n2) \<Rightarrow>
                     (let quant_error = (of_int (uint o0 - uint n0) * strength,
                                         of_int (uint o1 - uint n1) * strength,
                                         of_int (uint o2 - uint n2) * strength)
                      in Inr (distribute_error (pix[y * w + x := (n0, n1, n2, o3)]) x y w h
                                quant_error diffusion_matrix))))))"

definition error_diffusion_dithering :: "bool \<Rightarrow> (rgb \<Rightarrow> rgb) \<Rightarrow> image \<Rightarrow> color_key \<Rightarrow> rat \<Rightarrow> kernel \<Rightarrow> error + image" where
  "error_diffusion_dithering use_lab rgb2lab img color_key strength diffusion_matrix =
     (case fold_err
             (error_diffusion_step use_lab rgb2lab color_key (width img) (height img) strength
                diffusion_matrix)
             (raster (width img) (height img)) (pixels img) of
        Inl e \<Rightarrow> Inl e
      | Inr pix' \<Rightarrow> Inr (img\<lparr>pixels := pix'\<rparr>))"

text \<open>
  \<^verbatim>\<open>process_image\<close>: the registry of processing methods by name, with
  \<open>Color Match\<close> for an unknown name. \<open>K-Means Mapping\<close> clusters with scikit-learn
  and is the parameter \<open>kmeans\<close>. The record holds what the program takes from its
  libraries and from the state of the process.
\<close>

record externals =
  cv_rgb2lab :: "rgb \<Rightarrow> rgb"
  cv_lab2rgb :: "rgb \<Rightarrow> rgb"
  pil_saliency :: "image \<Rightarrow> rat list"
  np_random :: "nat \<Rightarrow> rat"
  kmeans :: "image \<Rightarrow> color_key \<Rightarrow> params \<Rightarrow> error + image"

definition process_image :: "bool \<Rightarrow> externals \<Rightarrow> image \<Rightarrow> color_key \<Rightarrow> string \<Rightarrow> params \<Rightarrow> error + image" where
  "process_image use_lab ext img color_key process_mode process_params =
     (if process_mode = ''Color Match'' then color_matching use_lab (cv_rgb2lab ext) img color_key
      else if process_mode = ''K-Means Mapping'' then kmeans ext img color_key process_params
      else if process_mode = ''Hybrid Dither''
        then hybrid_dithering use_lab (cv_rgb2lab ext) (pil_saliency ext) img color_key process_params
      else if process_mode = ''Pattern Dither''
        then ordered_dithering use_lab (cv_rgb2lab ext) (cv_lab2rgb ext) img color_key process_params
      else if process_mode = ''Atkinson Dither''
        then atkinson_dithering use_lab (cv_rgb2lab ext) img color_key process_params
      else if process_mode = ''Stucki Dither''
        then stucki_dithering use_lab (cv_rgb2lab ext) img color_key process_params
      else if process_mode = ''Floyd Dither''
        then floyd_steinberg_dithering use_lab (cv_rgb2lab ext) img color_key process_params
      else if process_mode = ''Jarvis Dither''
        then jarvis_judice_ninke_dithering use_lab (cv_rgb2lab ext) img color_key process_params
      else if process_mode = ''Sierra Dither''
        then sierra2_dithering use_lab (cv_rgb2lab ext) img color_key process_params
      else if process_mode = ''Random Dither''
        then random_dithering use_lab (cv_rgb2lab ext) (cv_lab2rgb ext) (np_random ext) img color_key
               process_params
      else color_matching use_lab (cv_rgb2lab ext) img color_key)"

section \<open>Animation encoder\<close>

text \<open>
  The pixel maps of \<^verbatim>\<open>process_and_save_gif\<close> are dictionaries from \<open>(x, y)\<close> to a
  colour number, kept in insertion order; \<^verbatim>\<open>d.get(k, -1)\<close> reads one.
\<close>

type_synonym pixel_map = "((nat \<times> nat) \<times> int) list"

definition dict_get :: "pixel_map \<Rightarrow> nat \<times> nat \<Rightarrow> int" where
  "dict_get d k = (case map_of d k of None \<Rightarrow> - 1 | Some v \<Rightarrow> v)"

text \<open>
  The first frame: a pixel with alpha at most 191 is skipped, every other one is stored
  under its coordinate and written to \<^verbatim>\<open>stamp.txt\<close>, rows from the top. There is no
  handler around the colour matcher here, so an exception ends the whole function.
\<close>

definition first_frame_step :: "bool \<Rightarrow> (rgb \<Rightarrow> rgb) \<Rightarrow> image \<Rightarrow> color_key \<Rightarrow> nat \<times> nat \<Rightarrow> pixel_map \<times> line list \<Rightarrow> error + pixel_map \<times> line list" where
  "first_frame_step use_lab rgb2lab first_frame color_key xy st =
     (case (xy, st) of ((x, y), (Frame1Array, stamp_file)) \<Rightarrow>
      (case getpixel first_frame x y of
         Inl e \<Rightarrow> Inl e
       | Inr (r, g, b, a) \<Rightarrow>
           if a \<le> 191 then Inr (Frame1Array, stamp_file)
           else
             (case find_closest_color use_lab rgb2lab (r, g, b) color_key of
                Inl e \<Rightarrow> Inl e
              | Inr closest_color_num \<Rightarrow>
                  Inr (AList.update (x, y) closest_color_num Frame1Array,
                       stamp_file @ [Point (scaled x) (scaled y) closest_color_num]))))"

definition first_frame_pass :: "bool \<Rightarrow> (rgb \<Rightarrow> rgb) \<Rightarrow> image \<Rightarrow> color_key \<Rightarrow> error + pixel_map \<times> line list" where
  "first_frame_pass use_lab rgb2lab first_frame color_key =
     fold_err (first_frame_step use_lab rgb2lab first_frame color_key)
       (raster (width first_frame) (height first_frame)) ([], [])"

text \<open>
  A later frame: every coordinate of the first frame's size gets an entry, \<open>-1\<close> for a
  pixel with alpha at most 191.
\<close>

definition frame_pixel_color :: "bool \<Rightarrow> (rgb \<Rightarrow> rgb) \<Rightarrow> image \<Rightarrow> color_key \<Rightarrow> nat \<times> nat \<Rightarrow> error + int" where
  "frame_pixel_color use_lab rgb2lab frame color_key xy =
     (case xy of (x, y) \<Rightarrow>
      (case getpixel frame x y of
         Inl e \<Rightarrow> Inl e
       | Inr (r, g, b, a) \<Rightarrow>
           if a \<le> 191 then Inr (- 1)
           else find_closest_color use_lab rgb2lab (r, g, b) color_key))"

definition collect_step :: "bool \<Rightarrow> (rgb \<Rightarrow> rgb) \<Rightarrow> image \<Rightarrow> color_key \<Rightarrow> nat \<times> nat \<Rightarrow> pixel_map \<Rightarrow> error + pixel_map" where
  "collect_step use_lab rgb2lab frame color_key xy current_frame_pixels =
     (case frame_pixel_color use_lab rgb2lab frame color_key xy of
        Inl e \<Rightarrow> Inl e
      | Inr current_color_num \<Rightarrow> Inr (AList.update xy current_color_num current_frame_pixels))"

definition collect_frame_pixels :: "bool \<Rightarrow> (rgb \<Rightarrow> rgb) \<Rightarrow> nat \<Rightarrow> nat \<Rightarrow> image \<Rightarrow> color_key \<Rightarrow> error + pixel_map" where
  "collect_frame_pixels use_lab rgb2lab w h frame color_key =
     fold_err (collect_step use_lab rgb2lab frame color_key) (raster w h) []"

text \<open>
  The union of the two key sets is a Python set, whose iteration order is not fixed by
  the language; the model visits the keys of the first map and then the new keys of the
  second. The statements below do not depend on the order.
\<close>

definition all_positions :: "pixel_map \<Rightarrow> pixel_map \<Rightarrow> (nat \<times> nat) list" where
  "all_positions a b = remdups (map fst a @ map fst b)"

definition frame_diffs :: "pixel_map \<Rightarrow> pixel_map \<Rightarrow> (nat \<times> nat \<times> int) list" where
  "frame_diffs Frame1Array current_frame_pixels =
     concat (map (\<lambda>xy. case xy of (x, y) \<Rightarrow>
        (let prev_color_num = dict_get Frame1Array (x, y);
             current_color_num = dict_get current_frame_pixels (x, y)
         in if current_color_num \<noteq> prev_color_num
            then (if current_color_num = - 1 then [(x, y, - 1)] else [(x, y, current_color_num)])
            else []))
       (all_positions Frame1Array current_frame_pixels))"

text \<open>The comparison of the last frame with the first that closes the loop.\<close>

definition closing_diffs :: "pixel_map \<Rightarrow> pixel_map \<Rightarrow> (nat \<times> nat \<times> int) list" where
  "closing_diffs first_frame_pixels Frame1Array =
     concat (map (\<lambda>xy. case xy of (x, y) \<Rightarrow>
        (let first_color_num = dict_get first_frame_pixels (x, y);
             last_color_num = dict_get Frame1Array (x, y)
         in if first_color_num \<noteq> last_color_num
            then (if first_color_num = - 1 then [(x, y, first_color_num)]
                  else if last_color_num = - 1 then [(x, y, - 1)]
                  else [(x, y, first_color_num)])
            else []))
       (all_positions first_frame_pixels Frame1Array))"

fun diff_line :: "nat \<times> nat \<times> int \<Rightarrow> line" where
  "diff_line (x, y, color_num) = Point (scaled x) (scaled y) color_num"

text \<open>
  One block of \<^verbatim>\<open>frames.txt\<close>: the header, with the delay \<^verbatim>\<open>delays[i]\<close> only when
  the delays differ, then the delta lines.
\<close>

definition write_block :: "int \<Rightarrow> int list \<Rightarrow> nat \<Rightarrow> nat \<Rightarrow> (nat \<times> nat \<times> int) list \<Rightarrow> error + line list" where
  "write_block uniform_delay delays i header_frame_number delta =
     (if uniform_delay = - 1 then
        (if i < length delays
         then Inr (FrameHeader header_frame_number (Some (delays ! i)) # map diff_line delta)
         else Inl IndexError)
      else Inr (FrameHeader header_frame_number None # map diff_line delta))"

text \<open>
  The loop over the frames from the second on. Its state is \<^verbatim>\<open>Frame1Array\<close> (the map
  of the frame before), the header number and the blocks appended to \<^verbatim>\<open>frames.txt\<close>
  so far; \<open>frame_number\<close> counts from 2.
\<close>

fun frames_loop :: "bool \<Rightarrow> (rgb \<Rightarrow> rgb) \<Rightarrow> nat \<Rightarrow> nat \<Rightarrow> color_key \<Rightarrow> int \<Rightarrow> int list \<Rightarrow> nat \<Rightarrow> image list \<Rightarrow> pixel_map \<times> nat \<times> line list list \<Rightarrow> error + pixel_map \<times> nat \<times> line list list" where
  "frames_loop use_lab rgb2lab w h color_key uniform_delay delays frame_number [] st = Inr st"
| "frames_loop use_lab rgb2lab w h color_key uniform_delay delays frame_number (frame # rest)
     (Frame1Array, header_frame_number, frames_file) =
     (case collect_frame_pixels use_lab rgb2lab w h frame color_key of
        Inl e \<Rightarrow> Inl e
      | Inr current_frame_pixels \<Rightarrow>
          (case write_block uniform_delay delays (frame_number - 1) header_frame_number
                  (frame_diffs Frame1Array current_frame_pixels) of
             Inl e \<Rightarrow> Inl e
           | Inr block \<Rightarrow>
               frames_loop use_lab rgb2lab w h color_key uniform_delay delays (Suc frame_number) rest
                 (current_frame_pixels, Suc header_frame_number, frames_file @ [block])))"

text \<open>
  \<^verbatim>\<open>process_and_save_gif\<close> from the saved frames on: the lines of \<^verbatim>\<open>stamp.txt\<close>
  and the blocks of \<^verbatim>\<open>frames.txt\<close>. \<open>frames\<close> are the processed frames in order and
  \<open>delays\<close> their durations. A file with a single frame is not animated: the function
  reports it and writes nothing.
\<close>

definition uniform_delay_of :: "int list \<Rightarrow> int" where
  "uniform_delay_of delays = (if list_all (\<lambda>d. d = hd delays) delays then hd delays else - 1)"

definition process_and_save_gif :: "bool \<Rightarrow> (rgb \<Rightarrow> rgb) \<Rightarrow> image list \<Rightarrow> int list \<Rightarrow> color_key \<Rightarrow> error + line list \<times> line list list" where
  "process_and_save_gif use_lab rgb2lab frames delays color_key =
     (if length frames < 2 then Inr ([], [])
      else if delays = [] then Inl IndexError
      else
        (let total_frames = length frames;
             uniform_delay = uniform_delay_of delays;
             first_frame = hd frames;
             w = width first_frame;
             h = height first_frame;
             header = GifHeader (round1 (of_nat w * (1 / 10))) (round1 (of_nat h * (1 / 10)))
                        total_frames uniform_delay
         in case first_frame_pass use_lab rgb2lab first_frame color_key of
              Inl e \<Rightarrow> Inl e
            | Inr (first_frame_pixels, points) \<Rightarrow>
                (case frames_loop use_lab rgb2lab w h color_key uniform_delay delays 2 (tl frames)
                        (first_frame_pixels, 1, []) of
                   Inl e \<Rightarrow> Inl e
                 | Inr (Frame1Array, header_frame_number, frames_file) \<Rightarrow>
                     (case write_block uniform_delay delays 0 header_frame_number
                             (closing_diffs first_frame_pixels Frame1Array) of
                        Inl e \<Rightarrow> Inl e
                      | Inr block \<Rightarrow> Inr (header # points, frames_file @ [block])))))"

text \<open>
  Replaying a delta on a pixel map, as the consumer of \<^verbatim>\<open>frames.txt\<close> does: each
  line sets the value at its coordinate. The consumer is not part of the converter; this
  is the replay the specification speaks of.
\<close>

definition replay :: "(nat \<times> nat \<times> int) list \<Rightarrow> pixel_map \<Rightarrow> pixel_map" where
  "replay delta m = fold (\<lambda>d m'. case d of (x, y, c) \<Rightarrow> AList.update (x, y) c m') delta m"

text \<open>The coordinates at which two pixel maps differ in value.\<close>

definition changed :: "pixel_map \<Rightarrow> pixel_map \<Rightarrow> (nat \<times> nat) set" where
  "changed prev cur =
     {k. (k \<in> fst ` set prev \<or> k \<in> fst ` set cur) \<and> dict_get cur k \<noteq> dict_get prev k}"

text \<open>
  The pixel map the encoder holds for frame \<open>i\<close> (counted from 0) when it compares
  frames: the first frame's map without entries for transparent pixels, every other
  frame's map with \<open>-1\<close> entries.
\<close>

definition frame_map :: "bool \<Rightarrow> (rgb \<Rightarrow> rgb) \<Rightarrow> image list \<Rightarrow> color_key \<Rightarrow> nat \<Rightarrow> error + pixel_map" where
  "frame_map use_lab rgb2lab frames color_key i =
     (if i = 0 then
        (case first_frame_pass use_lab rgb2lab (hd frames) color_key of
           Inl e \<Rightarrow> Inl e | Inr (m, points) \<Rightarrow> Inr m)
      else collect_frame_pixels use_lab rgb2lab (width (hd frames)) (height (hd frames))
             (frames ! i) color_key)"

section \<open>Background remover: the dynamic threshold\<close>

text \<open>
  \<^verbatim>\<open>calculate_dynamic_threshold(mask)\<close>, the local function of
  \<^verbatim>\<open>remove_background\<close> that is called when no threshold is passed. The mask is the
  output of the model, here the list of its values; \<^verbatim>\<open>np.max\<close> of an empty array
  raises \<^verbatim>\<open>ValueError\<close>.
\<close>

definition calculate_dynamic_threshold :: "rat list \<Rightarrow> error + rat" where
  "calculate_dynamic_threshold output =
     (if output = [] then Inl ValueError
      else
        (let mean_value = sum_list output / of_nat (length output);
             max_value = fold max (tl output) (hd output);
             calculated_threshold = max (1 / 100) (min (mean_value * (1 / 2)) (max_value * (1 / 2)));
             adjusted_threshold = max (1 / 100) (calculated_threshold * (9 / 10) - 1 / 100) / 42
         in Inr adjusted_threshold))"

text \<open>
  The threshold as the specification gives it:
  \<open>max(0.01, min(mean * 0.5, max * 0.5)) * 0.9 / 42\<close>.
\<close>

definition spec_threshold :: "rat \<Rightarrow> rat \<Rightarrow> rat" where
  "spec_threshold mean_value max_value =
     max (1 / 100) (min (mean_value * (1 / 2)) (max_value * (1 / 2))) * (9 / 10) / 42"

section \<open>Frame conditions\<close>

text \<open>
  What the dithering functions must leave alone: an output pixel has the alpha of the
  input pixel, and it is the input pixel when that alpha is zero.
\<close>

definition keeps_frozen :: "rgba \<Rightarrow> rgba \<Rightarrow> bool" where
  "keeps_frozen p q \<longleftrightarrow> alpha_of q = alpha_of p \<and> (alpha_of p = 0 \<longrightarrow> q = p)"

definition frozen_alpha :: "image \<Rightarrow> image \<Rightarrow> bool" where
  "frozen_alpha img out \<longleftrightarrow>
     width out = width img \<and> height out = height img \<and>
     list_all2 keeps_frozen (pixels img) (pixels out)"

text \<open>The same condition on the \<^verbatim>\<open>int16\<close> working copy of an image.\<close>

fun keeps_frozen16 :: "rgba \<Rightarrow> ipixel \<Rightarrow> bool" where
  "keeps_frozen16 p (r, g, b, a) \<longleftrightarrow>
     a = uint (alpha_of p) \<and> (alpha_of p = 0 \<longrightarrow> (r, g, b, a) = to_int16 p)"

definition dither_modes :: "string list" where
  "dither_modes =
     [''Hybrid Dither'', ''Pattern Dither'', ''Atkinson Dither'', ''Stucki Dither'',
      ''Floyd Dither'', ''Jarvis Dither'', ''Sierra Dither'', ''Random Dither'']"

text \<open>A coordinate whose pixel is inside the frame and has alpha above 191.\<close>

definition visible_at :: "image \<Rightarrow> nat \<times> nat \<Rightarrow> bool" where
  "visible_at frame xy =
     (case getpixel frame (fst xy) (snd xy) of Inl e \<Rightarrow> False | Inr (r, g, b, a) \<Rightarrow> 191 < a)"

section \<open>Concrete inputs\<close>

text \<open>Small images and palettes on which the definitions are evaluated.\<close>

definition one_color_key :: color_key where
  "one_color_key = [(0, (255, 255, 255))]"

definition opaque_2x2 :: image where
  "opaque_2x2 = \<lparr>width = 2, height = 2,
     pixels = [(255, 255, 255, 255), (250, 250, 250, 255), (240, 240, 240, 255), (230, 230, 230, 255)]\<rparr>"

definition alpha191_1x1 :: image where
  "alpha191_1x1 = \<lparr>width = 1, height = 1, pixels = [(10, 20, 30, 191)]\<rparr>"

definition transparent_1x1 :: image where
  "transparent_1x1 = \<lparr>width = 1, height = 1, pixels = [(10, 20, 30, 0)]\<rparr>"

definition gray_1x1 :: image where
  "gray_1x1 = \<lparr>width = 1, height = 1, pixels = [(100, 100, 100, 255)]\<rparr>"

definition bw_color_key :: color_key where
  "bw_color_key = [(0, (255, 255, 255)), (1, (0, 0, 0))]"

text \<open>A 3 by 3 image whose only pixel above the alpha threshold is the centre.\<close>

definition bordered_3x3 :: image where
  "bordered_3x3 = \<lparr>width = 3, height = 3,
     pixels = [(9, 9, 9, 0), (9, 9, 9, 100), (9, 9, 9, 0),
               (9, 9, 9, 191), (255, 255, 255, 255), (9, 9, 9, 0),
               (9, 9, 9, 0), (9, 9, 9, 50), (9, 9, 9, 0)]\<rparr>"

definition no_params :: params where
  "no_params = (\<lambda>k. None)"

definition seed_params :: params where
  "seed_params = (\<lambda>k. if k = ''seed'' then Some 42 else None)"

definition strength_seed_params :: params where
  "strength_seed_params = (\<lambda>k. if k = ''seed'' then Some 7 else None)"

definition noise_zero :: "nat \<Rightarrow> rat" where
  "noise_zero k = 0"

definition noise_high :: "nat \<Rightarrow> rat" where
  "noise_high k = 4"

definition tone_invert :: "rgb list \<Rightarrow> bool list \<Rightarrow> rgb list" where
  "tone_invert rgbs opaque = map (\<lambda>(r, g, b). (255 - r, 255 - g, 255 - b)) rgbs"

definition demo_externals :: externals where
  "demo_externals =
     \<lparr>cv_rgb2lab = id, cv_lab2rgb = id, pil_saliency = (\<lambda>img. map (\<lambda>p. 0) (pixels img)),
      np_random = noise_zero, kmeans = (\<lambda>img color_key params. Inr img)\<rparr>"

definition one_changed_2x2 :: image where
  "one_changed_2x2 = \<lparr>width = 2, height = 2,
     pixels = [(255, 255, 255, 255), (0, 0, 0, 255), (240, 240, 240, 255), (230, 230, 230, 255)]\<rparr>"

definition three_frames :: "image list" where
  "three_frames = [opaque_2x2, opaque_2x2, one_changed_2x2]"

text \<open>Two frames of one pixel: visible in the first, transparent in the second.\<close>

definition vanishing_frames :: "image list" where
  "vanishing_frames = [gray_1x1, transparent_1x1]"

section \<open>Properties of the colour matcher\<close>

lemma sum_sq_diff_sym: "sum_sq_diff a b = sum_sq_diff b a"
  by (cases a; cases b) (simp add: power2_commute)

lemma argmin_from_first_min:
  assumes "best < length pre" "bv = pre ! best"
    "\<forall>j<length pre. bv \<le> pre ! j" "\<forall>j<best. bv < pre ! j"
  shows "argmin_from best bv (length pre) ds < length (pre @ ds) \<and>
    (\<forall>j<length (pre @ ds). (pre @ ds) ! argmin_from best bv (length pre) ds \<le> (pre @ ds) ! j) \<and>
    (\<forall>j<argmin_from best bv (length pre) ds. (pre @ ds) ! argmin_from best bv (length pre) ds < (pre @ ds) ! j)"
  using assms
proof (induction ds arbitrary: pre best bv)
  case Nil
  then show ?case by simp
next
  case (Cons d ds)
  show ?case
  proof (cases "d < bv")
    case True
    have a: "length pre < length (pre @ [d])" by simp
    have b: "d = (pre @ [d]) ! length pre" by simp
    have c: "\<forall>j<length (pre @ [d]). d \<le> (pre @ [d]) ! j"
      using Cons.prems(3) True by (auto simp: nth_append less_Suc_eq)
    have e: "\<forall>j<length pre. d < (pre @ [d]) ! j"
      using Cons.prems(3) True by (auto simp: nth_append)
    from Cons.IH[OF a b c e] True show ?thesis by simp
  next
    case False
    have a: "best < length (pre @ [d])" using Cons.prems(1) by simp
    have b: "bv = (pre @ [d]) ! best" using Cons.prems(1,2) by (simp add: nth_append)
    have c: "\<forall>j<length (pre @ [d]). bv \<le> (pre @ [d]) ! j"
      using Cons.prems(3) False by (auto simp: nth_append less_Suc_eq)
    have e: "\<forall>j<best. bv < (pre @ [d]) ! j"
      using Cons.prems(1,4) by (auto simp: nth_append)
    from Cons.IH[OF a b c e] False show ?thesis by simp
  qed
qed

lemma argmin_first_min:
  assumes "ds \<noteq> []"
  shows "\<exists>k. argmin ds = Inr k \<and> k < length ds \<and> (\<forall>j<length ds. ds ! k \<le> ds ! j) \<and> (\<forall>j<k. ds ! k < ds ! j)"
proof -
  obtain d ds' where ds: "ds = d # ds'" using assms by (cases ds) auto
  have "argmin_from 0 d (length [d]) ds' < length ([d] @ ds') \<and>
    (\<forall>j<length ([d] @ ds'). ([d] @ ds') ! argmin_from 0 d (length [d]) ds' \<le> ([d] @ ds') ! j) \<and>
    (\<forall>j<argmin_from 0 d (length [d]) ds'. ([d] @ ds') ! argmin_from 0 d (length [d]) ds' < ([d] @ ds') ! j)"
    by (rule argmin_from_first_min) auto
  then show ?thesis by (simp add: ds argmin_def)
qed

lemma map_err_Inr:
  assumes "\<forall>x\<in>set xs. f x = Inr (g x)"
  shows "map_err f xs = Inr (map g xs)"
  using assms by (induction xs) auto

lemma map_of_nth_distinct:
  assumes "distinct (map fst ck)" "k < length ck"
  shows "map_of ck (fst (ck ! k)) = Some (snd (ck ! k))"
  using assms by (metis map_of_is_SomeI nth_mem prod.collapse)


lemma argmin_projr: "ds \<noteq> [] \<Longrightarrow> argmin ds = Inr (projr (argmin ds))"
  by (cases ds) (simp_all add: argmin_def)

lemma scalar_dists:
  assumes "color_key \<noteq> []"
  shows "find_closest_color use_lab rgb2lab p color_key =
     Inr (map fst color_key ! projr (argmin (map (\<lambda>c. color_dist use_lab rgb2lab c p) (map snd color_key))))"
proof (cases use_lab)
  case True
  have l: "map (\<lambda>c. sum_sq_diff (f32 c) (f32 (rgb2lab p))) (map rgb2lab (map snd color_key)) =
      map (\<lambda>c. color_dist use_lab rgb2lab c p) (map snd color_key)"
    using True by (simp add: color_dist_def comp_def)
  have ne: "map (\<lambda>c. color_dist use_lab rgb2lab c p) (map snd color_key) \<noteq> []"
    using assms by simp
  have "find_closest_color use_lab rgb2lab p color_key =
      (case argmin (map (\<lambda>c. sum_sq_diff (f32 c) (f32 (rgb2lab p))) (map rgb2lab (map snd color_key))) of
         Inl e \<Rightarrow> Inl e | Inr idx \<Rightarrow> Inr (map fst color_key ! idx))"
    using True assms by (simp add: find_closest_color_def Let_def)
  also have "\<dots> = Inr (map fst color_key ! projr (argmin (map (\<lambda>c. color_dist use_lab rgb2lab c p) (map snd color_key))))"
    unfolding l using argmin_projr[OF ne] by (metis sum.simps(6))
  finally show ?thesis .
next
  case False
  have l: "map (\<lambda>c. sum_sq_diff c (f32 p)) (map f32 (map snd color_key)) =
      map (\<lambda>c. color_dist use_lab rgb2lab c p) (map snd color_key)"
    using False by (simp add: color_dist_def comp_def)
  have ne: "map (\<lambda>c. color_dist use_lab rgb2lab c p) (map snd color_key) \<noteq> []"
    using assms by simp
  have "find_closest_color use_lab rgb2lab p color_key =
      (case argmin (map (\<lambda>c. sum_sq_diff c (f32 p)) (map f32 (map snd color_key))) of
         Inl e \<Rightarrow> Inl e | Inr idx \<Rightarrow> Inr (map fst color_key ! idx))"
    using False assms by (simp add: find_closest_color_def Let_def)
  also have "\<dots> = Inr (map fst color_key ! projr (argmin (map (\<lambda>c. color_dist use_lab rgb2lab c p) (map snd color_key))))"
    unfolding l using argmin_projr[OF ne] by (metis sum.simps(6))
  finally show ?thesis .
qed

lemma batched_rows:
  assumes "cs \<noteq> []"
  shows "map_err argmin (map (\<lambda>p. map (f p) cs) ps) =
      Inr (map (\<lambda>p. projr (argmin (map (f p) cs))) ps)"
proof -
  have "map_err argmin (map (\<lambda>p. map (f p) cs) ps) =
      Inr (map (\<lambda>r. projr (argmin r)) (map (\<lambda>p. map (f p) cs) ps))"
    by (rule map_err_Inr) (use assms in \<open>auto intro!: argmin_projr\<close>)
  then show ?thesis by (simp add: comp_def)
qed

lemma batched_dists:
  assumes "color_key \<noteq> []" "pixels img \<noteq> []"
  shows "find_closest_colors_image use_lab rgb2lab img color_key =
     Inr (img\<lparr>pixels := map2 with_alpha
        (map (\<lambda>p. map snd color_key ! projr (argmin (map (\<lambda>c. color_dist use_lab rgb2lab c p) (map snd color_key))))
           (map rgb_of (pixels img)))
        (map alpha_of (pixels img))\<rparr>)"
proof (cases use_lab)
  case True
  have cs: "map f32 (map rgb2lab (map snd color_key)) \<noteq> []" using assms(1) by simp
  have l: "map (sum_sq_diff q) (map f32 (map rgb2lab (map snd color_key))) =
      map (\<lambda>c. color_dist use_lab rgb2lab c p) (map snd color_key)" if "q = f32 (rgb2lab p)" for p q
    using True that by (simp add: color_dist_def comp_def sum_sq_diff_sym[of "f32 (rgb2lab p)"])
  have "find_closest_colors_image use_lab rgb2lab img color_key =
      (case map_err argmin (map (\<lambda>p. map (sum_sq_diff p) (map f32 (map rgb2lab (map snd color_key))))
               (map f32 (map rgb2lab (map rgb_of (pixels img))))) of
         Inl e \<Rightarrow> Inl e
       | Inr closest_indices \<Rightarrow>
           Inr (img\<lparr>pixels := map2 with_alpha (map (\<lambda>i. map snd color_key ! i) closest_indices)
               (map alpha_of (pixels img))\<rparr>))"
    using True assms by (simp add: find_closest_colors_image_def Let_def comp_def)
  also have "\<dots> = Inr (img\<lparr>pixels := map2 with_alpha
      (map (\<lambda>i. map snd color_key ! i)
         (map (\<lambda>p. projr (argmin (map (sum_sq_diff p) (map f32 (map rgb2lab (map snd color_key))))))
            (map f32 (map rgb2lab (map rgb_of (pixels img))))))
      (map alpha_of (pixels img))\<rparr>)"
    unfolding batched_rows[OF cs] by simp
  also have "\<dots> = Inr (img\<lparr>pixels := map2 with_alpha
        (map (\<lambda>p. map snd color_key ! projr (argmin (map (\<lambda>c. color_dist use_lab rgb2lab c p) (map snd color_key))))
           (map rgb_of (pixels img)))
        (map alpha_of (pixels img))\<rparr>)"
  proof -
    have "map (\<lambda>i. map snd color_key ! i)
         (map (\<lambda>p. projr (argmin (map (sum_sq_diff p) (map f32 (map rgb2lab (map snd color_key))))))
            (map f32 (map rgb2lab (map rgb_of (pixels img))))) =
        map (\<lambda>p. map snd color_key ! projr (argmin (map (sum_sq_diff (f32 (rgb2lab p))) (map f32 (map rgb2lab (map snd color_key))))))
           (map rgb_of (pixels img))"
      by (simp only: map_map comp_def)
    also have "\<dots> = map (\<lambda>p. map snd color_key ! projr (argmin (map (\<lambda>c. color_dist use_lab rgb2lab c p) (map snd color_key))))
           (map rgb_of (pixels img))"
      by (simp only: l[OF refl])
    finally show ?thesis by (simp only:)
  qed
  finally show ?thesis .
next
  case False
  have cs: "map f32 (map snd color_key) \<noteq> []" using assms(1) by simp
  have l: "map (sum_sq_diff (f32 p)) (map f32 (map snd color_key)) =
      map (\<lambda>c. color_dist use_lab rgb2lab c p) (map snd color_key)" for p
    using False by (simp add: color_dist_def comp_def sum_sq_diff_sym[of "f32 p"])
  have "find_closest_colors_image use_lab rgb2lab img color_key =
      (case map_err argmin (map (\<lambda>p. map (sum_sq_diff p) (map f32 (map snd color_key)))
               (map f32 (map rgb_of (pixels img)))) of
         Inl e \<Rightarrow> Inl e
       | Inr closest_indices \<Rightarrow>
           Inr (img\<lparr>pixels := map2 with_alpha (map (\<lambda>i. map snd color_key ! i) closest_indices)
               (map alpha_of (pixels img))\<rparr>))"
    using False assms by (simp add: find_closest_colors_image_def Let_def comp_def)
  also have "\<dots> = Inr (img\<lparr>pixels := map2 with_alpha
      (map (\<lambda>i. map snd color_key ! i)
         (map (\<lambda>p. projr (argmin (map (sum_sq_diff p) (map f32 (map snd color_key)))))
            (map f32 (map rgb_of (pixels img)))))
      (map alpha_of (pixels img))\<rparr>)"
    unfolding batched_rows[OF cs] by simp
  also have "\<dots> = Inr (img\<lparr>pixels := map2 with_alpha
        (map (\<lambda>p. map snd color_key ! projr (argmin (map (\<lambda>c. color_dist use_lab rgb2lab c p) (map snd color_key))))
           (map rgb_of (pixels img)))
        (map alpha_of (pixels img))\<rparr>)"
  proof -
    have "map (\<lambda>i. map snd color_key ! i)
         (map (\<lambda>p. projr (argmin (map (sum_sq_diff p) (map f32 (map snd color_key)))))
            (map f32 (map rgb_of (pixels img)))) =
        map (\<lambda>p. map snd color_key ! projr (argmin (map (sum_sq_diff (f32 p)) (map f32 (map snd color_key)))))
           (map rgb_of (pixels img))"
      by (simp only: map_map comp_def)
    also have "\<dots> = map (\<lambda>p. map snd color_key ! projr (argmin (map (\<lambda>c. color_dist use_lab rgb2lab c p) (map snd color_key))))
           (map rgb_of (pixels img))"
      by (simp only: l)
    finally show ?thesis by (simp only:)
  qed
  finally show ?thesis .
qed

text \<open>
  C2. For every image (of at least one pixel) and every non-empty palette, in RGB and in
  LAB mode, the batched
  classifier succeeds, keeps the size and the alpha channel, and gives each pixel the RGB
  value of the very palette entry whose number the scalar classifier returns for that
  pixel's RGB value; that entry minimises the squared Euclidean distance and is the first
  one to do so.
\<close>

theorem find_closest_colors_image_pixelwise:
  assumes "color_key \<noteq> []" and "pixels img \<noteq> []"
  shows "\<exists>out. find_closest_colors_image use_lab rgb2lab img color_key = Inr out \<and>
      width out = width img \<and> height out = height img \<and>
      length (pixels out) = length (pixels img) \<and>
      (\<forall>i<length (pixels img). \<exists>k<length color_key.
          find_closest_color use_lab rgb2lab (rgb_of (pixels img ! i)) color_key = Inr (fst (color_key ! k)) \<and>
          pixels out ! i = with_alpha (snd (color_key ! k)) (alpha_of (pixels img ! i)) \<and>
          (\<forall>j<length color_key.
              color_dist use_lab rgb2lab (snd (color_key ! k)) (rgb_of (pixels img ! i))
              \<le> color_dist use_lab rgb2lab (snd (color_key ! j)) (rgb_of (pixels img ! i))) \<and>
          (\<forall>j<k.
              color_dist use_lab rgb2lab (snd (color_key ! k)) (rgb_of (pixels img ! i))
              < color_dist use_lab rgb2lab (snd (color_key ! j)) (rgb_of (pixels img ! i))))"
proof -
  note ne = assms(2)
  let ?d = "\<lambda>p. map (\<lambda>c. color_dist use_lab rgb2lab c p) (map snd color_key)"
  let ?k = "\<lambda>p. projr (argmin (?d p))"
  let ?out = "img\<lparr>pixels := map2 with_alpha
        (map (\<lambda>p. map snd color_key ! ?k p) (map rgb_of (pixels img)))
        (map alpha_of (pixels img))\<rparr>"
  have b: "find_closest_colors_image use_lab rgb2lab img color_key = Inr ?out"
    by (rule batched_dists[OF assms(1) ne])
  have pix: "\<exists>k<length color_key.
          find_closest_color use_lab rgb2lab (rgb_of (pixels img ! i)) color_key = Inr (fst (color_key ! k)) \<and>
          pixels ?out ! i = with_alpha (snd (color_key ! k)) (alpha_of (pixels img ! i)) \<and>
          (\<forall>j<length color_key.
              color_dist use_lab rgb2lab (snd (color_key ! k)) (rgb_of (pixels img ! i))
              \<le> color_dist use_lab rgb2lab (snd (color_key ! j)) (rgb_of (pixels img ! i))) \<and>
          (\<forall>j<k.
              color_dist use_lab rgb2lab (snd (color_key ! k)) (rgb_of (pixels img ! i))
              < color_dist use_lab rgb2lab (snd (color_key ! j)) (rgb_of (pixels img ! i)))"
    if i: "i < length (pixels img)" for i
  proof -
    let ?p = "rgb_of (pixels img ! i)"
    have dne: "?d ?p \<noteq> []" using assms(1) by simp
    from argmin_first_min[OF dne] obtain k where k: "argmin (?d ?p) = Inr k" "k < length (?d ?p)"
      "\<forall>j<length (?d ?p). ?d ?p ! k \<le> ?d ?p ! j" "\<forall>j<k. ?d ?p ! k < ?d ?p ! j" by blast
    have kk: "?k ?p = k" using k(1) by simp
    have klen: "k < length color_key" using k(2) by simp
    have s: "find_closest_color use_lab rgb2lab ?p color_key = Inr (fst (color_key ! k))"
      using scalar_dists[OF assms(1), of use_lab rgb2lab ?p] kk klen by simp
    have o: "pixels ?out ! i = with_alpha (snd (color_key ! k)) (alpha_of (pixels img ! i))"
      using i kk klen by simp
    have m1: "\<forall>j<length color_key.
              color_dist use_lab rgb2lab (snd (color_key ! k)) ?p
              \<le> color_dist use_lab rgb2lab (snd (color_key ! j)) ?p"
      using k(3) klen by simp
    have m2: "\<forall>j<k. color_dist use_lab rgb2lab (snd (color_key ! k)) ?p
              < color_dist use_lab rgb2lab (snd (color_key ! j)) ?p"
      using k(4) klen by simp
    from klen s o m1 m2 show ?thesis by blast
  qed
  show ?thesis
    apply (rule exI[of _ ?out])
    using b pix by simp
qed

theorem find_closest_colors_image_pixelwise_witness:
  "one_color_key \<noteq> [] \<and> pixels opaque_2x2 \<noteq> [] \<and>
   (\<exists>out. find_closest_colors_image False id opaque_2x2 one_color_key = Inr out \<and>
      find_closest_color False id (rgb_of (pixels opaque_2x2 ! 1)) one_color_key = Inr 0 \<and>
      pixels out ! 1 = (255, 255, 255, 255))"
proof -
  have h1: "one_color_key \<noteq> []" by (simp add: one_color_key_def)
  have h2: "pixels opaque_2x2 \<noteq> []" by (simp add: opaque_2x2_def)
  from find_closest_colors_image_pixelwise[OF h1 h2, of False id]
  obtain out where o: "find_closest_colors_image False id opaque_2x2 one_color_key = Inr out"
    and p: "\<forall>i<length (pixels opaque_2x2). \<exists>k<length one_color_key.
          find_closest_color False id (rgb_of (pixels opaque_2x2 ! i)) one_color_key = Inr (fst (one_color_key ! k)) \<and>
          pixels out ! i = with_alpha (snd (one_color_key ! k)) (alpha_of (pixels opaque_2x2 ! i))"
    by blast
  have "1 < length (pixels opaque_2x2)" by (simp add: opaque_2x2_def)
  with p obtain k where k: "k < length one_color_key"
     "find_closest_color False id (rgb_of (pixels opaque_2x2 ! 1)) one_color_key = Inr (fst (one_color_key ! k))"
     "pixels out ! 1 = with_alpha (snd (one_color_key ! k)) (alpha_of (pixels opaque_2x2 ! 1))"
    by blast
  from k(1) have "k = 0" by (simp add: one_color_key_def)
  with k(2,3) have "find_closest_color False id (rgb_of (pixels opaque_2x2 ! 1)) one_color_key = Inr 0"
    "pixels out ! 1 = (255, 255, 255, 255)"
    by (simp_all add: one_color_key_def opaque_2x2_def)
  with o h1 h2 show ?thesis by blast
qed

section \<open>Properties of the static encoder\<close>

lemma argmin_first_min_index:
  assumes "ds \<noteq> []"
  shows "argmin ds = Inr (first_min_index ds) \<and> first_min_index ds < length ds"
proof -
  from argmin_first_min[OF assms] obtain k where k: "argmin ds = Inr k" "k < length ds"
    "\<forall>j<length ds. ds ! k \<le> ds ! j" "\<forall>j<k. ds ! k < ds ! j" by blast
  have fin: "finite (set ds)" and ne: "set ds \<noteq> {}" using assms by auto
  have "ds ! k \<in> set ds" using k(2) by simp
  moreover have "\<forall>d\<in>set ds. ds ! k \<le> d" using k(3) by (auto simp: in_set_conv_nth)
  ultimately have m: "Min (set ds) = ds ! k" using fin by (meson Min_eqI)
  have "takeWhile (\<lambda>d. d \<noteq> Min (set ds)) ds = take k ds"
  proof (rule takeWhile_eq_take_P_nth)
    fix i assume "i < k" "i < length ds"
    then show "ds ! i \<noteq> Min (set ds)" using k(4) m by auto
  next
    assume "k < length ds"
    show "\<not> ds ! k \<noteq> Min (set ds)" using m by simp
  qed
  then have "first_min_index ds = k" using k(2) by (simp add: first_min_index_def)
  with k show ?thesis by simp
qed

lemma find_closest_color_nearest:
  assumes "color_key \<noteq> []"
  shows "find_closest_color use_lab rgb2lab p color_key = Inr (nearest_number use_lab rgb2lab color_key p)"
proof -
  let ?ds = "map (\<lambda>c. color_dist use_lab rgb2lab c p) (map snd color_key)"
  have ne: "?ds \<noteq> []" using assms by simp
  have e: "?ds = map (\<lambda>e. color_dist use_lab rgb2lab (snd e) p) color_key" by (simp add: comp_def)
  from argmin_first_min_index[OF ne] have a: "argmin ?ds = Inr (first_min_index ?ds)"
    and b: "first_min_index ?ds < length color_key" by simp_all
  show ?thesis
    unfolding scalar_dists[OF assms] nearest_number_def a e[symmetric]
    using b by simp
qed

lemma round_half_even_of_int: "round_half_even (of_int n) = n"
  by (simp add: round_half_even_def)

lemma scaled_tenth: "scaled n = of_nat n / 10"
proof -
  have "round_half_even (of_nat n * (1 / 10) * 10) = int n"
    using round_half_even_of_int[of "int n"] by simp
  then show ?thesis by (simp add: scaled_def round1_def)
qed

lemma round1_tenth: "round1 (of_nat n * (1 / 10)) = of_nat n / 10"
  using scaled_tenth[of n] by (simp add: scaled_def)

lemma round1_tenth_div: "round1 (of_nat n / 10) = of_nat n / 10"
  using round1_tenth[of n] by simp

lemma for_range_concat: "for_range n body = concat (map body [0..<n])"
  by (induction n) simp_all

lemma for_range_down_concat: "for_range_down n body = concat (map body (rev [0..<n]))"
  by (induction n) simp_all

lemma raster_index_less:
  assumes "x < w" "y < h"
  shows "y * w + x < w * (h::nat)"
proof -
  have "y * w + x < y * w + w" using assms(1) by simp
  also have "\<dots> = (Suc y) * w" by simp
  also have "\<dots> \<le> h * w" using assms(2) by (intro mult_le_mono1) simp
  finally show ?thesis by (simp add: mult.commute)
qed

lemma stamp_pixel_spec:
  assumes "color_key \<noteq> []" "wf_image img" "x < width img" "y < height img"
  shows "stamp_pixel use_lab rgb2lab img color_key (height img) y x =
         spec_point use_lab rgb2lab img color_key y x"
proof -
  have i: "y * width img + x < length (pixels img)"
    using raster_index_less[OF assms(3,4)] assms(2) by (simp add: wf_image_def)
  obtain r g b a where p: "pixels img ! (y * width img + x) = (r, g, b, a)"
    by (cases "pixels img ! (y * width img + x)") auto
  have g: "getpixel img x y = Inr (r, g, b, a)"
    using i assms(3,4) p by (simp add: getpixel_def)
  show ?thesis
  proof (cases "a \<le> 191")
    case True
    then have "\<not> 191 < a" by simp
    with True g p show ?thesis by (simp add: stamp_pixel_def spec_point_def)
  next
    case False
    then have "191 < a" by simp
    with False g p find_closest_color_nearest[OF assms(1), of use_lab rgb2lab "(r, g, b)"]
    show ?thesis by (simp add: stamp_pixel_def spec_point_def scaled_tenth)
  qed
qed

text \<open>
  C1. For an RGBA image and a non-empty palette the static encoder writes the header with
  a tenth of the width and of the height and the kind \<open>img\<close>, then, for the rows from
  the last to the first and the columns from left to right, exactly one point line for
  each pixel whose alpha exceeds 191: a tenth of \<open>x\<close>, a tenth of \<open>height - 1 - y\<close>, and
  the number of the nearest palette colour. Pixels with alpha at most 191 write nothing.
\<close>

theorem write_stamp_spec:
  assumes "color_key \<noteq> []" and "wf_image img"
  shows "write_stamp use_lab rgb2lab img color_key = spec_stamp use_lab rgb2lab img color_key"
proof -
  have row: "concat (map (\<lambda>x. stamp_pixel use_lab rgb2lab img color_key (height img) y x) [0..<width img]) =
      concat (map (\<lambda>x. spec_point use_lab rgb2lab img color_key y x) [0..<width img])"
    if "y < height img" for y
  proof -
    have "stamp_pixel use_lab rgb2lab img color_key (height img) y x =
        spec_point use_lab rgb2lab img color_key y x" if "x \<in> set [0..<width img]" for x
      using stamp_pixel_spec[OF assms _ \<open>y < height img\<close>, of x] that by simp
    then have "map (\<lambda>x. stamp_pixel use_lab rgb2lab img color_key (height img) y x) [0..<width img] =
        map (\<lambda>x. spec_point use_lab rgb2lab img color_key y x) [0..<width img]"
      by (intro map_cong[OF refl])
    then show ?thesis by (rule arg_cong)
  qed
  have "concat (map (\<lambda>y. concat (map (\<lambda>x. stamp_pixel use_lab rgb2lab img color_key (height img) y x) [0..<width img]))
          (rev [0..<height img])) =
        concat (map (\<lambda>y. concat (map (\<lambda>x. spec_point use_lab rgb2lab img color_key y x) [0..<width img]))
          (rev [0..<height img]))"
  proof -
    have "map (\<lambda>y. concat (map (\<lambda>x. stamp_pixel use_lab rgb2lab img color_key (height img) y x) [0..<width img]))
          (rev [0..<height img]) =
        map (\<lambda>y. concat (map (\<lambda>x. spec_point use_lab rgb2lab img color_key y x) [0..<width img]))
          (rev [0..<height img])"
      by (rule map_cong[OF refl]) (use row in simp)
    then show ?thesis by (rule arg_cong)
  qed
  then show ?thesis
    by (simp add: write_stamp_def spec_stamp_def Let_def round1_tenth_div for_range_concat for_range_down_concat)
qed

theorem write_stamp_spec_witness:
  "one_color_key \<noteq> [] \<and> wf_image opaque_2x2 \<and>
   write_stamp False id opaque_2x2 one_color_key =
     [ImgHeader (2 / 10) (2 / 10), Point 0 0 0, Point (1 / 10) 0 0, Point 0 (1 / 10) 0, Point (1 / 10) (1 / 10) 0]"
proof -
  have h1: "one_color_key \<noteq> []" by (simp add: one_color_key_def)
  have h2: "wf_image opaque_2x2" by (simp add: wf_image_def opaque_2x2_def)
  have "spec_stamp False id opaque_2x2 one_color_key =
     [ImgHeader (2 / 10) (2 / 10), Point 0 0 0, Point (1 / 10) 0 0, Point 0 (1 / 10) 0, Point (1 / 10) (1 / 10) 0]"
    by code_simp
  with write_stamp_spec[OF h1 h2, of False id] h1 h2 show ?thesis by simp
qed

section \<open>The dynamic threshold\<close>

text \<open>
  On the mask \<open>[0.5, 1]\<close> (mean 0.75, maximum 1) the function returns \<open>131/16800\<close>, the
  formula \<open>max(0.01, min(mean * 0.5, max * 0.5)) * 0.9 / 42\<close> gives \<open>9/1120\<close>.
\<close>

theorem calculate_dynamic_threshold_counterexample:
  "calculate_dynamic_threshold [1 / 2, 1] = Inr (131 / 16800) \<and>
   spec_threshold ((1 / 2 + 1) / 2) 1 = 9 / 1120 \<and>
   calculate_dynamic_threshold [1 / 2, 1] \<noteq> Inr (spec_threshold ((1 / 2 + 1) / 2) 1)"
  by (simp add: calculate_dynamic_threshold_def spec_threshold_def)

text \<open>
  C9 (amended). For a non-empty mask the dynamic threshold is
  \<open>max(0.01, max(0.01, min(mean * 0.5, max * 0.5)) * 0.9 - 0.01) / 42\<close>: after the
  clamp the value is scaled by 0.9, lowered by 0.01, bounded below by 0.01 again and
  only then divided by 42.
\<close>

theorem calculate_dynamic_threshold_formula:
  "calculate_dynamic_threshold (m # ms) =
     Inr (max (1 / 100)
            (max (1 / 100)
               (min (sum_list (m # ms) / of_nat (length (m # ms)) * (1 / 2))
                    (Max (set (m # ms)) * (1 / 2))) * (9 / 10) - 1 / 100) / 42)"
  unfolding calculate_dynamic_threshold_def Let_def Max.set_eq_fold by simp

section \<open>The opacity threshold\<close>

lemma batched_nearest:
  assumes "color_key \<noteq> []" "pixels img \<noteq> []"
  shows "find_closest_colors_image use_lab rgb2lab img color_key =
     Inr (img\<lparr>pixels := map (\<lambda>p. with_alpha (nearest_rgb use_lab rgb2lab color_key (rgb_of p)) (alpha_of p))
                           (pixels img)\<rparr>)"
proof -
  have k: "map snd color_key ! projr (argmin (map (\<lambda>c. color_dist use_lab rgb2lab c p) (map snd color_key))) =
      nearest_rgb use_lab rgb2lab color_key p" for p
  proof -
    let ?ds = "map (\<lambda>c. color_dist use_lab rgb2lab c p) (map snd color_key)"
    have ne: "?ds \<noteq> []" using assms(1) by simp
    have e: "?ds = map (\<lambda>e. color_dist use_lab rgb2lab (snd e) p) color_key" by (simp add: comp_def)
    from argmin_first_min_index[OF ne] have a: "argmin ?ds = Inr (first_min_index ?ds)"
      and b: "first_min_index ?ds < length color_key" by simp_all
    show ?thesis unfolding a nearest_rgb_def e[symmetric] using b by simp
  qed
  have "map2 with_alpha
        (map (\<lambda>p. map snd color_key ! projr (argmin (map (\<lambda>c. color_dist use_lab rgb2lab c p) (map snd color_key))))
           (map rgb_of (pixels img)))
        (map alpha_of (pixels img)) =
      map (\<lambda>p. with_alpha (nearest_rgb use_lab rgb2lab color_key (rgb_of p)) (alpha_of p)) (pixels img)"
  proof -
    have "map2 with_alpha (map (\<lambda>p. g p) (map rgb_of xs)) (map alpha_of xs) =
        map (\<lambda>p. with_alpha (g (rgb_of p)) (alpha_of p)) xs" for g :: "rgb \<Rightarrow> rgb" and xs :: "rgba list"
      by (induction xs) simp_all
    then show ?thesis unfolding k by simp
  qed
  then show ?thesis unfolding batched_dists[OF assms] by simp
qed

lemma color_matching_pixels:
  assumes "color_key \<noteq> []" "pixels img \<noteq> []"
  shows "color_matching use_lab rgb2lab img color_key =
     Inr (img\<lparr>pixels := map (\<lambda>p. if 191 < alpha_of p
                                   then with_alpha (nearest_rgb use_lab rgb2lab color_key (rgb_of p)) (alpha_of p)
                                   else p) (pixels img)\<rparr>)"
proof -
  have "map (\<lambda>(m, (opaque, orig)). if opaque then m else orig)
          (zip (map f xs) (zip (map (\<lambda>p. 191 < alpha_of p) xs) xs)) =
        map (\<lambda>p. if 191 < alpha_of p then f p else p) xs" for f :: "rgba \<Rightarrow> rgba" and xs
    by (induction xs) simp_all
  then show ?thesis
    unfolding color_matching_def batched_nearest[OF assms] by (simp add: Let_def)
qed

text \<open>
  C6 (amended). For a non-empty palette and a pixel of the image: the static encoder
  writes a line for it exactly when its alpha is greater than 191; \<open>Color Match\<close>
  replaces it by the nearest palette colour exactly when its alpha is greater than 191
  and leaves it as it is otherwise; the opaque mask of the preprocessor holds exactly
  when its alpha is at least 191.
\<close>

theorem opacity_thresholds:
  assumes "color_key \<noteq> []" and "wf_image img" and "x < width img" and "y < height img"
  shows "(stamp_pixel use_lab rgb2lab img color_key (height img) y x \<noteq> [] \<longleftrightarrow>
            191 < alpha_of (pixels img ! (y * width img + x))) \<and>
         (\<exists>out. color_matching use_lab rgb2lab img color_key = Inr out \<and>
            pixels out ! (y * width img + x) =
              (if 191 < alpha_of (pixels img ! (y * width img + x))
               then with_alpha (nearest_rgb use_lab rgb2lab color_key (rgb_of (pixels img ! (y * width img + x))))
                      (alpha_of (pixels img ! (y * width img + x)))
               else pixels img ! (y * width img + x))) \<and>
         (opaque_mask img ! (y * width img + x) \<longleftrightarrow> 191 \<le> alpha_of (pixels img ! (y * width img + x)))"
proof -
  let ?i = "y * width img + x"
  have i: "?i < length (pixels img)"
    using raster_index_less[OF assms(3,4)] assms(2) by (simp add: wf_image_def)
  then have ne: "pixels img \<noteq> []" by auto
  have a: "stamp_pixel use_lab rgb2lab img color_key (height img) y x \<noteq> [] \<longleftrightarrow> 191 < alpha_of (pixels img ! ?i)"
    unfolding stamp_pixel_spec[OF assms] by (simp add: spec_point_def Let_def)
  have b: "\<exists>out. color_matching use_lab rgb2lab img color_key = Inr out \<and>
            pixels out ! ?i =
              (if 191 < alpha_of (pixels img ! ?i)
               then with_alpha (nearest_rgb use_lab rgb2lab color_key (rgb_of (pixels img ! ?i)))
                      (alpha_of (pixels img ! ?i))
               else pixels img ! ?i)"
    unfolding color_matching_pixels[OF assms(1) ne] using i by simp
  have c: "opaque_mask img ! ?i \<longleftrightarrow> 191 \<le> alpha_of (pixels img ! ?i)"
    using i by (simp add: opaque_mask_def)
  from a b c show ?thesis by blast
qed

theorem opacity_thresholds_witness:
  "one_color_key \<noteq> [] \<and> wf_image alpha191_1x1 \<and>
   stamp_pixel False id alpha191_1x1 one_color_key 1 0 0 = [] \<and>
   color_matching False id alpha191_1x1 one_color_key = Inr alpha191_1x1 \<and>
   opaque_mask alpha191_1x1 ! 0"
proof -
  have h1: "one_color_key \<noteq> []" by (simp add: one_color_key_def)
  have h2: "wf_image alpha191_1x1" by (simp add: wf_image_def alpha191_1x1_def)
  have h3: "0 < width alpha191_1x1" "0 < height alpha191_1x1" by (simp_all add: alpha191_1x1_def)
  have p: "pixels alpha191_1x1 ! 0 = (10, 20, 30, 191)" "height alpha191_1x1 = 1"
    "pixels alpha191_1x1 = [(10, 20, 30, 191)]"  "width alpha191_1x1 = 1"
    by (simp_all add: alpha191_1x1_def)
  from opacity_thresholds[OF h1 h2 h3, of False id]
  obtain out where "stamp_pixel False id alpha191_1x1 one_color_key 1 0 0 = []"
     "color_matching False id alpha191_1x1 one_color_key = Inr out" "pixels out ! 0 = (10, 20, 30, 191)"
     "opaque_mask alpha191_1x1 ! 0"
    by (auto simp: p)
  moreover have "color_matching False id alpha191_1x1 one_color_key = Inr alpha191_1x1"
    by code_simp
  ultimately show ?thesis using h1 h2 by simp
qed

text \<open>
  A pixel with alpha exactly 191 is left out of the stamp and is not matched by
  \<open>Color Match\<close>.
\<close>

theorem opacity_threshold_counterexample:
  "alpha_of (pixels alpha191_1x1 ! 0) = 191 \<and>
   write_stamp False id alpha191_1x1 one_color_key = [ImgHeader (1 / 10) (1 / 10)] \<and>
   color_matching False id alpha191_1x1 one_color_key = Inr alpha191_1x1"
  by code_simp

section \<open>Filtering and cropping before the stamp is written\<close>

lemma sorted_hd_le: "sorted xs \<Longrightarrow> x \<in> set xs \<Longrightarrow> hd xs \<le> (x::nat)"
  by (cases xs) auto

lemma sorted_le_last: "sorted xs \<Longrightarrow> x \<in> set xs \<Longrightarrow> (x::nat) \<le> last xs"
  by (induction xs) (auto split: if_splits)

lemma nth_concat_rows:
  assumes "\<And>y. y \<in> set ys \<Longrightarrow> length (f y) = n" "j < length ys" "i < n"
  shows "concat (map f ys) ! (j * n + i) = f (ys ! j) ! i"
  using assms
proof (induction ys arbitrary: j)
  case Nil
  then show ?case by simp
next
  case (Cons y ys)
  have ly: "length (f y) = n" using Cons.prems(1) by simp
  show ?case
  proof (cases j)
    case 0
    then show ?thesis using Cons.prems(3) ly by (simp add: nth_append)
  next
    case (Suc j')
    have "concat (map f ys) ! (j' * n + i) = f (ys ! j') ! i"
      using Cons.prems Suc by (intro Cons.IH) auto
    then show ?thesis using Suc ly by (simp add: nth_append)
  qed
qed

lemma length_concat_rows:
  assumes "\<And>y. y \<in> set ys \<Longrightarrow> length (f y) = n"
  shows "length (concat (map f ys)) = length ys * n"
  using assms by (induction ys) simp_all

lemma crop_pixel:
  assumes "i < r - l" "j < b - u"
  shows "pixels (crop img (l, u, r, b)) ! (j * (r - l) + i) = pixels img ! ((u + j) * width img + (l + i))"
proof -
  have "concat (map (\<lambda>y. map (\<lambda>x. pixels img ! (y * width img + x)) [l..<r]) [u..<b]) ! (j * (r - l) + i) =
      (map (\<lambda>x. pixels img ! (([u..<b] ! j) * width img + x)) [l..<r]) ! i"
    using assms by (intro nth_concat_rows) simp_all
  then show ?thesis using assms by simp
qed

lemma crop_wf:
  assumes "l < r" "u < b"
  shows "wf_image (crop img (l, u, r, b))"
proof -
  have "length (concat (map (\<lambda>y. map (\<lambda>x. pixels img ! (y * width img + x)) [l..<r]) [u..<b])) =
      length [u..<b] * (r - l)"
    by (intro length_concat_rows) simp
  then show ?thesis using assms by (simp add: wf_image_def mult.commute)
qed

lemma getbbox_None:
  assumes "getbbox img = None" "x < width img" "y < height img"
  shows "alpha_at img x y = 0"
proof (rule ccontr)
  assume nz: "alpha_at img x y \<noteq> 0"
  define cols where "cols = filter (\<lambda>x. list_ex (\<lambda>y. alpha_at img x y \<noteq> 0) [0..<height img]) [0..<width img]"
  define rows where "rows = filter (\<lambda>y. list_ex (\<lambda>x. alpha_at img x y \<noteq> 0) [0..<width img]) [0..<height img]"
  have "x \<in> set cols"
    unfolding cols_def using assms(2,3) nz by (auto simp: list_ex_iff)
  moreover have "y \<in> set rows"
    unfolding rows_def using assms(2,3) nz by (auto simp: list_ex_iff)
  ultimately have "cols \<noteq> []" "rows \<noteq> []" by auto
  moreover have "cols = [] \<or> rows = []"
    using assms(1) unfolding getbbox_def Let_def cols_def[symmetric] rows_def[symmetric]
    by (simp split: if_splits)
  ultimately show False by blast
qed

lemma getbbox_Some:
  assumes "getbbox img = Some (l, u, r, b)"
  shows "l < r \<and> r \<le> width img \<and> u < b \<and> b \<le> height img \<and>
    (\<exists>y<height img. alpha_at img l y \<noteq> 0) \<and> (\<exists>y<height img. alpha_at img (r - 1) y \<noteq> 0) \<and>
    (\<exists>x<width img. alpha_at img x u \<noteq> 0) \<and> (\<exists>x<width img. alpha_at img x (b - 1) \<noteq> 0) \<and>
    (\<forall>x y. x < width img \<and> y < height img \<and> alpha_at img x y \<noteq> 0 \<longrightarrow> l \<le> x \<and> x < r \<and> u \<le> y \<and> y < b)"
proof -
  define cols where "cols = filter (\<lambda>x. list_ex (\<lambda>y. alpha_at img x y \<noteq> 0) [0..<height img]) [0..<width img]"
  define rows where "rows = filter (\<lambda>y. list_ex (\<lambda>x. alpha_at img x y \<noteq> 0) [0..<width img]) [0..<height img]"
  have mc: "x \<in> set cols \<longleftrightarrow> x < width img \<and> (\<exists>y<height img. alpha_at img x y \<noteq> 0)" for x
    unfolding cols_def by (auto simp: list_ex_iff)
  have mr: "y \<in> set rows \<longleftrightarrow> y < height img \<and> (\<exists>x<width img. alpha_at img x y \<noteq> 0)" for y
    unfolding rows_def by (auto simp: list_ex_iff)
  have "(if cols = [] \<or> rows = [] then None else Some (hd cols, hd rows, Suc (last cols), Suc (last rows))) =
      Some (l, u, r, b)"
    using assms unfolding getbbox_def Let_def cols_def[symmetric] rows_def[symmetric] .
  then have ne: "cols \<noteq> []" "rows \<noteq> []"
    and eq: "l = hd cols" "u = hd rows" "r = Suc (last cols)" "b = Suc (last rows)"
    by (auto split: if_splits)
  have sc: "sorted cols" and sr: "sorted rows" by (simp_all add: cols_def rows_def sorted_wrt_filter)
  have hc: "hd cols \<in> set cols" and lc: "last cols \<in> set cols" using ne(1) by simp_all
  have hr: "hd rows \<in> set rows" and lr: "last rows \<in> set rows" using ne(2) by simp_all
  have 1: "l < r" using sorted_le_last[OF sc hc] eq by simp
  have 2: "r \<le> width img" using lc eq mc by auto
  have 3: "u < b" using sorted_le_last[OF sr hr] eq by simp
  have 4: "b \<le> height img" using lr eq mr by auto
  have 5: "\<exists>y<height img. alpha_at img l y \<noteq> 0" using hc eq mc by blast
  have 6: "\<exists>y<height img. alpha_at img (r - 1) y \<noteq> 0" using lc eq mc by simp
  have 7: "\<exists>x<width img. alpha_at img x u \<noteq> 0" using hr eq mr by blast
  have 8: "\<exists>x<width img. alpha_at img x (b - 1) \<noteq> 0" using lr eq mr by simp
  have 9: "l \<le> x \<and> x < r \<and> u \<le> y \<and> y < b"
    if "x < width img" "y < height img" "alpha_at img x y \<noteq> 0" for x y
  proof -
    have xc: "x \<in> set cols" using that mc by blast
    have yr: "y \<in> set rows" using that mr by blast
    from sorted_hd_le[OF sc xc] sorted_le_last[OF sc xc] sorted_hd_le[OF sr yr] sorted_le_last[OF sr yr]
    show ?thesis using eq by simp
  qed
  from 1 2 3 4 5 6 7 8 9 show ?thesis by blast
qed

lemma write_stamp_header:
  "hd (write_stamp use_lab rgb2lab img color_key) = ImgHeader (of_nat (width img) / 10) (of_nat (height img) / 10)"
  by (simp add: write_stamp_def Let_def round1_tenth_div)

text \<open>
  C10. Before the stamp is written every pixel with alpha at most 191 is set to
  \<open>(0, 0, 0, 0)\<close> and the image is cropped to the bounding box of the pixels whose alpha
  is not zero: the box is inside the image, its first and last column and row each hold
  such a pixel, no such pixel lies outside it, and the cropped image holds the pixels of
  the box; an image without such a pixel becomes a single transparent pixel. The header
  of the stamp carries a tenth of the width and height of the cropped image.
\<close>

theorem save_image_cropped:
  "save_image use_lab rgb2lab img color_key =
     write_stamp use_lab rgb2lab (crop_to_solid_area (filter_transparent img)) color_key \<and>
   hd (save_image use_lab rgb2lab img color_key) =
     ImgHeader (of_nat (width (crop_to_solid_area (filter_transparent img))) / 10)
               (of_nat (height (crop_to_solid_area (filter_transparent img))) / 10) \<and>
   width (filter_transparent img) = width img \<and> height (filter_transparent img) = height img \<and>
   pixels (filter_transparent img) =
     map (\<lambda>p. if alpha_of p \<le> 191 then (0, 0, 0, 0) else p) (pixels img) \<and>
   wf_image (crop_to_solid_area (filter_transparent img)) \<and>
   (case getbbox (filter_transparent img) of
      None \<Rightarrow>
        crop_to_solid_area (filter_transparent img) = \<lparr>width = 1, height = 1, pixels = [(0, 0, 0, 0)]\<rparr> \<and>
        (\<forall>x y. x < width img \<and> y < height img \<longrightarrow> alpha_at (filter_transparent img) x y = 0)
    | Some (l, u, r, b) \<Rightarrow>
        l < r \<and> r \<le> width img \<and> u < b \<and> b \<le> height img \<and>
        width (crop_to_solid_area (filter_transparent img)) = r - l \<and>
        height (crop_to_solid_area (filter_transparent img)) = b - u \<and>
        (\<exists>y<height img. alpha_at (filter_transparent img) l y \<noteq> 0) \<and>
        (\<exists>y<height img. alpha_at (filter_transparent img) (r - 1) y \<noteq> 0) \<and>
        (\<exists>x<width img. alpha_at (filter_transparent img) x u \<noteq> 0) \<and>
        (\<exists>x<width img. alpha_at (filter_transparent img) x (b - 1) \<noteq> 0) \<and>
        (\<forall>x y. x < width img \<and> y < height img \<and> alpha_at (filter_transparent img) x y \<noteq> 0 \<longrightarrow>
           l \<le> x \<and> x < r \<and> u \<le> y \<and> y < b) \<and>
        (\<forall>i j. i < r - l \<and> j < b - u \<longrightarrow>
           pixels (crop_to_solid_area (filter_transparent img)) ! (j * (r - l) + i) =
           pixels (filter_transparent img) ! ((u + j) * width img + (l + i))))"
proof -
  let ?f = "filter_transparent img"
  let ?c = "crop_to_solid_area ?f"
  have fw: "width ?f = width img" "height ?f = height img"
    "pixels ?f = map (\<lambda>p. if alpha_of p \<le> 191 then (0, 0, 0, 0) else p) (pixels img)"
    by (simp_all add: filter_transparent_def)
  have a: "save_image use_lab rgb2lab img color_key = write_stamp use_lab rgb2lab ?c color_key"
    by (simp add: save_image_def)
  have b: "hd (save_image use_lab rgb2lab img color_key) =
     ImgHeader (of_nat (width ?c) / 10) (of_nat (height ?c) / 10)"
    unfolding a by (rule write_stamp_header)
  have box: "(case getbbox ?f of
      None \<Rightarrow>
        ?c = \<lparr>width = 1, height = 1, pixels = [(0, 0, 0, 0)]\<rparr> \<and>
        (\<forall>x y. x < width img \<and> y < height img \<longrightarrow> alpha_at ?f x y = 0)
    | Some (l, u, r, b) \<Rightarrow>
        l < r \<and> r \<le> width img \<and> u < b \<and> b \<le> height img \<and>
        width ?c = r - l \<and> height ?c = b - u \<and>
        (\<exists>y<height img. alpha_at ?f l y \<noteq> 0) \<and>
        (\<exists>y<height img. alpha_at ?f (r - 1) y \<noteq> 0) \<and>
        (\<exists>x<width img. alpha_at ?f x u \<noteq> 0) \<and>
        (\<exists>x<width img. alpha_at ?f x (b - 1) \<noteq> 0) \<and>
        (\<forall>x y. x < width img \<and> y < height img \<and> alpha_at ?f x y \<noteq> 0 \<longrightarrow>
           l \<le> x \<and> x < r \<and> u \<le> y \<and> y < b) \<and>
        (\<forall>i j. i < r - l \<and> j < b - u \<longrightarrow>
           pixels ?c ! (j * (r - l) + i) = pixels ?f ! ((u + j) * width img + (l + i)))) \<and> wf_image ?c"
  proof (cases "getbbox ?f")
    case None
    have "\<forall>x y. x < width img \<and> y < height img \<longrightarrow> alpha_at ?f x y = 0"
      using getbbox_None[OF None] fw(1,2) by simp
    then show ?thesis using None by (simp add: crop_to_solid_area_def wf_image_def)
  next
    case (Some bb)
    obtain l u r b where bb: "bb = (l, u, r, b)" by (cases bb) auto
    have c: "?c = crop ?f (l, u, r, b)" using Some bb by (simp add: crop_to_solid_area_def)
    from getbbox_Some[OF Some[unfolded bb]] have g: "l < r \<and> r \<le> width img \<and> u < b \<and> b \<le> height img \<and>
      (\<exists>y<height img. alpha_at ?f l y \<noteq> 0) \<and> (\<exists>y<height img. alpha_at ?f (r - 1) y \<noteq> 0) \<and>
      (\<exists>x<width img. alpha_at ?f x u \<noteq> 0) \<and> (\<exists>x<width img. alpha_at ?f x (b - 1) \<noteq> 0) \<and>
      (\<forall>x y. x < width img \<and> y < height img \<and> alpha_at ?f x y \<noteq> 0 \<longrightarrow> l \<le> x \<and> x < r \<and> u \<le> y \<and> y < b)"
      unfolding fw(1,2) .
    have d: "width ?c = r - l" "height ?c = b - u" unfolding c by simp_all
    have p: "\<forall>i j. i < r - l \<and> j < b - u \<longrightarrow>
           pixels ?c ! (j * (r - l) + i) = pixels ?f ! ((u + j) * width img + (l + i))"
      unfolding c using crop_pixel[of _ r l _ b u ?f] fw(1) by simp
    have w: "wf_image ?c" unfolding c using g by (intro crop_wf) simp_all
    show ?thesis
      apply (simp only: Some bb option.case prod.case)
      using g d p w by blast
  qed
  from a b fw box show ?thesis by simp
qed

theorem save_image_cropped_witness:
  "width bordered_3x3 = 3 \<and> height bordered_3x3 = 3 \<and>
   getbbox (filter_transparent bordered_3x3) = Some (1, 1, 2, 2) \<and>
   crop_to_solid_area (filter_transparent bordered_3x3) =
     \<lparr>width = 1, height = 1, pixels = [(255, 255, 255, 255)]\<rparr> \<and>
   hd (save_image False id bordered_3x3 one_color_key) = ImgHeader (1 / 10) (1 / 10) \<and>
   save_image False id bordered_3x3 one_color_key = [ImgHeader (1 / 10) (1 / 10), Point 0 0 0]"
proof -
  have c: "crop_to_solid_area (filter_transparent bordered_3x3) =
     \<lparr>width = 1, height = 1, pixels = [(255, 255, 255, 255)]\<rparr>"
    by code_simp
  have g: "getbbox (filter_transparent bordered_3x3) = Some (1, 1, 2, 2)"
    by code_simp
  have w: "write_stamp False id \<lparr>width = 1, height = 1, pixels = [(255, 255, 255, 255)]\<rparr> one_color_key =
      [ImgHeader (1 / 10) (1 / 10), Point 0 0 0]"
    by code_simp
  have d: "width bordered_3x3 = 3" "height bordered_3x3 = 3" by (simp_all add: bordered_3x3_def)
  from save_image_cropped[of False id bordered_3x3 one_color_key]
  have "save_image False id bordered_3x3 one_color_key =
      write_stamp False id (crop_to_solid_area (filter_transparent bordered_3x3)) one_color_key"
    and "hd (save_image False id bordered_3x3 one_color_key) =
      ImgHeader (of_nat (width (crop_to_solid_area (filter_transparent bordered_3x3))) / 10)
                (of_nat (height (crop_to_solid_area (filter_transparent bordered_3x3))) / 10)"
    by blast+
  then show ?thesis using c g w d by simp
qed

section \<open>Alpha is frozen by dithering\<close>

lemma fold_err_invariant:
  assumes "fold_err f xs s = Inr s'" "P s"
    "\<And>x t t'. x \<in> set xs \<Longrightarrow> P t \<Longrightarrow> f x t = Inr t' \<Longrightarrow> P t'"
  shows "P s'"
  using assms
proof (induction xs arbitrary: s)
  case Nil
  then show ?case by simp
next
  case (Cons x xs)
  from Cons.prems(1) obtain t where t: "f x s = Inr t" "fold_err f xs t = Inr s'"
    by (auto split: sum.splits)
  have "P t" using Cons.prems(3)[OF _ Cons.prems(2) t(1)] by simp
  with t(2) Cons.prems(3) show ?case by (intro Cons.IH[of t]) auto
qed

lemma fold_err_total:
  assumes "\<And>x t. x \<in> set xs \<Longrightarrow> \<exists>t'. f x t = Inr t'"
  shows "\<exists>s'. fold_err f xs s = Inr s'"
  using assms
proof (induction xs arbitrary: s)
  case Nil
  then show ?case by simp
next
  case (Cons x xs)
  from Cons.prems[of x s] obtain t where t: "f x s = Inr t" by auto
  from Cons.IH[of t] Cons.prems obtain s' where "fold_err f xs t = Inr s'" by auto
  with t show ?case by simp
qed

lemma clip_byte_uint: "clip_byte (uint (a::byte)) = a"
proof -
  have "uint a < 2 ^ 8" using uint_lt2p[of a] by simp
  then have "max 0 (min 255 (uint a)) = uint a" by simp
  then show ?thesis by (simp add: clip_byte_def)
qed

lemma clip_pixel_to_int16: "clip_pixel (to_int16 p) = p"
  by (cases p) (simp add: clip_byte_uint)

lemma keeps_frozen16_clip: "keeps_frozen16 p q \<Longrightarrow> keeps_frozen p (clip_pixel q)"
  by (cases p; cases q) (auto simp: keeps_frozen_def clip_byte_uint)

lemma keeps_frozen16_update:
  assumes "list_all2 keeps_frozen16 orig buf"
    and "i < length orig \<Longrightarrow> alpha_of (orig ! i) \<noteq> 0 \<and> a = uint (alpha_of (orig ! i))"
  shows "list_all2 keeps_frozen16 orig (buf[i := (r, g, b, a)])"
proof -
  have len: "length orig = length buf" using assms(1) by (simp add: list_all2_lengthD)
  have "keeps_frozen16 (orig ! j) (buf[i := (r, g, b, a)] ! j)" if j: "j < length buf" for j
  proof (cases "j = i")
    case True
    with j len assms(2) show ?thesis by simp
  next
    case False
    with j assms(1) show ?thesis by (simp add: list_all2_conv_all_nth)
  qed
  with len show ?thesis by (simp add: list_all2_conv_all_nth)
qed

lemma keeps_frozen16_alpha:
  assumes "list_all2 keeps_frozen16 orig buf" "i < length orig" "buf ! i = (r, g, b, a)"
  shows "a = uint (alpha_of (orig ! i))"
  using assms by (auto simp: list_all2_conv_all_nth)

lemma mask_nonzero:
  assumes "i < length orig" "map (\<lambda>p. 0 < alpha_of p) orig ! i"
  shows "alpha_of (orig ! i) \<noteq> 0"
  using assms by auto

lemma diffuse_keeps_frozen16:
  assumes "list_all2 keeps_frozen16 orig buf"
  shows "list_all2 keeps_frozen16 orig
           (diffuse w h (map (\<lambda>p. 0 < alpha_of p) orig) quant_error x y diffusion_matrix buf)"
  using assms
proof (induction diffusion_matrix arbitrary: buf)
  case Nil
  then show ?case by simp
next
  case (Cons k ks)
  obtain dx dy coeff where k: "k = (dx, dy, coeff)" by (cases k) auto
  obtain e0 e1 e2 where qe: "quant_error = (e0, e1, e2)" by (cases quant_error) auto
  let ?i = "nat (int y + dy) * w + nat (int x + dx)"
  obtain n0 n1 n2 n3 where n: "buf ! ?i = (n0, n1, n2, n3)" by (cases "buf ! ?i") auto
  show ?case
  proof (cases "0 \<le> int x + dx \<and> int x + dx < int w \<and> 0 \<le> int y + dy \<and> int y + dy < int h \<and>
      map (\<lambda>p. 0 < alpha_of p) orig ! ?i")
    case True
    have "list_all2 keeps_frozen16 orig
        (buf[?i := (clamp255 (of_int n0 + e0 * coeff), clamp255 (of_int n1 + e1 * coeff),
                    clamp255 (of_int n2 + e2 * coeff), n3)])"
    proof (rule keeps_frozen16_update[OF Cons.prems])
      assume i: "?i < length orig"
      from True have "map (\<lambda>p. 0 < alpha_of p) orig ! ?i" by simp
      with i have "alpha_of (orig ! ?i) \<noteq> 0" by auto
      moreover have "n3 = uint (alpha_of (orig ! ?i))"
        by (rule keeps_frozen16_alpha[OF Cons.prems i n])
      ultimately show "alpha_of (orig ! ?i) \<noteq> 0 \<and> n3 = uint (alpha_of (orig ! ?i))" by simp
    qed
    from Cons.IH[OF this] True show ?thesis by (simp add: k qe n Let_def)
  next
    case False
    with Cons.IH[OF Cons.prems] show ?thesis by (auto simp add: k Let_def)
  qed
qed

lemma diffusion_step_keeps_frozen16:
  assumes "list_all2 keeps_frozen16 orig buf"
    and "diffusion_step use_lab rgb2lab cs (map (\<lambda>p. 0 < alpha_of p) orig) w h strength km xy buf = Inr buf'"
  shows "list_all2 keeps_frozen16 orig buf'"
proof -
  obtain x y where xy: "xy = (x, y)" by (cases xy) auto
  let ?i = "y * w + x"
  show ?thesis
  proof (cases "map (\<lambda>p. 0 < alpha_of p) orig ! ?i")
    case False
    with assms show ?thesis by (simp add: diffusion_step_def xy)
  next
    case True
    obtain o0 o1 o2 o3 where ob: "buf ! ?i = (o0, o1, o2, o3)" by (cases "buf ! ?i") auto
    from assms(2) True obtain idx where idx: "closest_color_func use_lab rgb2lab cs (o0, o1, o2) = Inr idx"
      by (auto simp: diffusion_step_def xy ob split: sum.splits)
    obtain n0 n1 n2 where nn: "f32 (cs ! idx) = (n0, n1, n2)" by (cases "f32 (cs ! idx)") auto
    have u: "list_all2 keeps_frozen16 orig (buf[?i := (n0, n1, n2, o3)])"
    proof (rule keeps_frozen16_update[OF assms(1)])
      assume i: "?i < length orig"
      with True have "alpha_of (orig ! ?i) \<noteq> 0" by auto
      moreover have "o3 = uint (alpha_of (orig ! ?i))"
        by (rule keeps_frozen16_alpha[OF assms(1) i ob])
      ultimately show "alpha_of (orig ! ?i) \<noteq> 0 \<and> o3 = uint (alpha_of (orig ! ?i))" by simp
    qed
    from assms(2) True have "buf' = diffuse w h (map (\<lambda>p. 0 < alpha_of p) orig)
        (of_int (o0 - n0) * strength, of_int (o1 - n1) * strength, of_int (o2 - n2) * strength)
        x y km (buf[?i := (n0, n1, n2, o3)])"
      by (simp add: diffusion_step_def xy ob idx nn Let_def)
    then show ?thesis using diffuse_keeps_frozen16[OF u] by simp
  qed
qed

lemma to_int16_keeps_frozen16: "list_all2 keeps_frozen16 orig (map to_int16 orig)"
  by (induction orig) (auto simp: list_all2_Cons1)

lemma clip_frozen_alpha:
  assumes "list_all2 keeps_frozen16 (pixels img) buf"
  shows "frozen_alpha img (img\<lparr>pixels := map clip_pixel buf\<rparr>)"
  using assms by (auto simp: frozen_alpha_def list_all2_conv_all_nth keeps_frozen16_clip)

lemma optimized_frozen:
  assumes "optimized_error_diffusion_dithering use_lab rgb2lab img color_key strength km = Inr out"
  shows "frozen_alpha img out"
proof -
  from assms obtain buf where
    f: "fold_err (diffusion_step use_lab rgb2lab (map snd color_key) (map (\<lambda>p. 0 < alpha_of p) (pixels img))
           (width img) (height img) strength km) (raster (width img) (height img))
           (map to_int16 (pixels img)) = Inr buf"
    and o: "out = img\<lparr>pixels := map clip_pixel buf\<rparr>"
    by (auto simp: optimized_error_diffusion_dithering_def Let_def split: if_splits sum.splits)
  have "list_all2 keeps_frozen16 (pixels img) buf"
    by (rule fold_err_invariant[where P = "list_all2 keeps_frozen16 (pixels img)", OF f to_int16_keeps_frozen16])
      (rule diffusion_step_keeps_frozen16)
  then show ?thesis unfolding o by (rule clip_frozen_alpha)
qed

lemma hybrid_frozen:
  assumes "hybrid_dithering use_lab rgb2lab saliency_map img color_key params = Inr out"
  shows "frozen_alpha img out"
proof -
  let ?step = "\<lambda>xy. case xy of (x, y) \<Rightarrow>
        diffusion_step use_lab rgb2lab (map snd color_key) (map (\<lambda>p. 0 < alpha_of p) (pixels img))
          (width img) (height img) (get_strength params)
          (if 1 / 2 < saliency_map img ! (y * width img + x) then floyd_steinberg_matrix else atkinson_matrix)
          (x, y)"
  from assms obtain buf where
    f: "fold_err ?step (raster (width img) (height img)) (map to_int16 (pixels img)) = Inr buf"
    and o: "out = img\<lparr>pixels := map clip_pixel buf\<rparr>"
    by (auto simp: hybrid_dithering_def Let_def split: if_splits sum.splits)
  have "list_all2 keeps_frozen16 (pixels img) buf"
  proof (rule fold_err_invariant[where P = "list_all2 keeps_frozen16 (pixels img)", OF f to_int16_keeps_frozen16])
    fix xy t t'
    assume "list_all2 keeps_frozen16 (pixels img) t" "?step xy t = Inr t'"
    then show "list_all2 keeps_frozen16 (pixels img) t'"
      by (cases xy) (auto intro: diffusion_step_keeps_frozen16)
  qed
  then show ?thesis unfolding o by (rule clip_frozen_alpha)
qed

lemma ordered_step_keeps_frozen16:
  assumes "list_all2 keeps_frozen16 orig buf"
    and "ordered_step use_lab rgb2lab lab2rgb cs (map (\<lambda>p. 0 < alpha_of p) orig) w af xy buf = Inr buf'"
  shows "list_all2 keeps_frozen16 orig buf'"
proof -
  obtain x y where xy: "xy = (x, y)" by (cases xy) auto
  let ?i = "y * w + x"
  show ?thesis
  proof (cases "map (\<lambda>p. 0 < alpha_of p) orig ! ?i")
    case False
    with assms show ?thesis by (simp add: ordered_step_def xy)
  next
    case True
    obtain o0 o1 o2 o3 where ob: "buf ! ?i = (o0, o1, o2, o3)" by (cases "buf ! ?i") auto
    from assms(2) True obtain n0 n1 n2 where b': "buf' = buf[?i := (n0, n1, n2, o3)]"
      by (auto simp: ordered_step_def xy ob Let_def split: sum.splits prod.splits)
    show ?thesis unfolding b'
    proof (rule keeps_frozen16_update[OF assms(1)])
      assume i: "?i < length orig"
      with True have "alpha_of (orig ! ?i) \<noteq> 0" by auto
      moreover have "o3 = uint (alpha_of (orig ! ?i))"
        by (rule keeps_frozen16_alpha[OF assms(1) i ob])
      ultimately show "alpha_of (orig ! ?i) \<noteq> 0 \<and> o3 = uint (alpha_of (orig ! ?i))" by simp
    qed
  qed
qed

lemma ordered_frozen:
  assumes "ordered_dithering use_lab rgb2lab lab2rgb img color_key params = Inr out"
  shows "frozen_alpha img out"
proof -
  from assms obtain buf where
    f: "fold_err (ordered_step use_lab rgb2lab lab2rgb (map snd color_key)
           (map (\<lambda>p. 0 < alpha_of p) (pixels img)) (width img) (3 / 10 * get_strength params))
           (raster (width img) (height img)) (map to_int16 (pixels img)) = Inr buf"
    and o: "out = img\<lparr>pixels := map clip_pixel buf\<rparr>"
    by (auto simp: ordered_dithering_def Let_def split: if_splits sum.splits)
  have "list_all2 keeps_frozen16 (pixels img) buf"
    by (rule fold_err_invariant[where P = "list_all2 keeps_frozen16 (pixels img)", OF f to_int16_keeps_frozen16])
      (rule ordered_step_keeps_frozen16)
  then show ?thesis unfolding o by (rule clip_frozen_alpha)
qed

lemma keeps_frozen_refl: "list_all2 keeps_frozen orig orig"
  by (simp add: list_all2_conv_all_nth keeps_frozen_def)

lemma keeps_frozen_update:
  assumes "list_all2 keeps_frozen orig pix"
    and "i < length orig \<Longrightarrow> alpha_of (orig ! i) \<noteq> 0 \<and> alpha_of q = alpha_of (orig ! i)"
  shows "list_all2 keeps_frozen orig (pix[i := q])"
proof -
  have len: "length orig = length pix" using assms(1) by (simp add: list_all2_lengthD)
  have "keeps_frozen (orig ! j) (pix[i := q] ! j)" if j: "j < length pix" for j
  proof (cases "j = i")
    case True
    with j len assms(2) show ?thesis by (simp add: keeps_frozen_def)
  next
    case False
    with j assms(1) show ?thesis by (simp add: list_all2_conv_all_nth)
  qed
  with len show ?thesis by (simp add: list_all2_conv_all_nth)
qed

lemma keeps_frozen_alpha:
  assumes "list_all2 keeps_frozen orig pix" "i < length orig"
  shows "alpha_of (pix ! i) = alpha_of (orig ! i)"
  using assms by (auto simp: list_all2_conv_all_nth keeps_frozen_def)

lemma alpha_of_with_alpha: "alpha_of (with_alpha c a) = a"
  by (cases c) simp

lemma random_step_keeps_frozen:
  assumes "list_all2 keeps_frozen orig (fst st)"
    and "random_step use_lab rgb2lab lab2rgb noise color_key w noise_std xy st = Inr st'"
  shows "list_all2 keeps_frozen orig (fst st')"
proof -
  obtain x y where xy: "xy = (x, y)" by (cases xy) auto
  obtain pix k where st: "st = (pix, k)" by (cases st) auto
  let ?i = "y * w + x"
  obtain r g b a where p: "pix ! ?i = (r, g, b, a)" by (cases "pix ! ?i") auto
  show ?thesis
  proof (cases "a = 0")
    case True
    with assms show ?thesis by (auto simp add: random_step_def xy st p)
  next
    case False
    from assms(2) False obtain c where s': "st' = (pix[?i := with_alpha c a], k + 3)"
      by (auto simp: random_step_def xy st p Let_def split: sum.splits option.splits)
    have "list_all2 keeps_frozen orig (pix[?i := with_alpha c a])"
    proof (rule keeps_frozen_update)
      show "list_all2 keeps_frozen orig pix" using assms(1) st by simp
    next
      assume i: "?i < length orig"
      have "alpha_of (pix ! ?i) = alpha_of (orig ! ?i)"
        using keeps_frozen_alpha[OF _ i, of pix] assms(1) st by simp
      then show "alpha_of (orig ! ?i) \<noteq> 0 \<and> alpha_of (with_alpha c a) = alpha_of (orig ! ?i)"
        using False p by (simp add: alpha_of_with_alpha)
    qed
    then show ?thesis by (simp add: s')
  qed
qed

lemma random_frozen:
  assumes "random_dithering use_lab rgb2lab lab2rgb noise img color_key params = Inr out"
  shows "frozen_alpha img out"
proof -
  from assms obtain pix k where
    f: "fold_err (random_step use_lab rgb2lab lab2rgb noise color_key (width img) (32 * get_strength params))
           (raster (width img) (height img)) (pixels img, 0) = Inr (pix, k)"
    and o: "out = img\<lparr>pixels := pix\<rparr>"
    by (auto simp: random_dithering_def Let_def split: sum.splits)
  have "list_all2 keeps_frozen (pixels img) (fst (pix, k))"
    by (rule fold_err_invariant[where P = "\<lambda>st. list_all2 keeps_frozen (pixels img) (fst st)", OF f])
      (auto intro: random_step_keeps_frozen simp: keeps_frozen_refl)
  then show ?thesis unfolding o by (simp add: frozen_alpha_def)
qed

lemma distribute_error_keeps_frozen:
  assumes "list_all2 keeps_frozen orig pix"
  shows "list_all2 keeps_frozen orig (distribute_error pix x y w h quant_error km)"
  using assms
proof (induction km arbitrary: pix)
  case Nil
  then show ?case by simp
next
  case (Cons k ks)
  obtain dx dy coeff where k: "k = (dx, dy, coeff)" by (cases k) auto
  obtain e0 e1 e2 where qe: "quant_error = (e0, e1, e2)" by (cases quant_error) auto
  let ?i = "nat (int y + dy) * w + nat (int x + dx)"
  obtain c0 c1 c2 c3 where c: "pix ! ?i = (c0, c1, c2, c3)" by (cases "pix ! ?i") auto
  show ?case
  proof (cases "0 \<le> int x + dx \<and> int x + dx < int w \<and> 0 \<le> int y + dy \<and> int y + dy < int h \<and> c3 \<noteq> 0")
    case True
    let ?q = "(word_of_int (clamp255 (of_int (uint c0) + e0 * coeff)) :: byte,
              word_of_int (clamp255 (of_int (uint c1) + e1 * coeff)) :: byte,
              word_of_int (clamp255 (of_int (uint c2) + e2 * coeff)) :: byte, c3)"
    have "list_all2 keeps_frozen orig (pix[?i := ?q])"
    proof (rule keeps_frozen_update[OF Cons.prems])
      assume i: "?i < length orig"
      have "alpha_of (pix ! ?i) = alpha_of (orig ! ?i)"
        by (rule keeps_frozen_alpha[OF Cons.prems i])
      then show "alpha_of (orig ! ?i) \<noteq> 0 \<and> alpha_of ?q = alpha_of (orig ! ?i)"
        using True c by simp
    qed
    from Cons.IH[OF this] True show ?thesis by (simp add: k qe c Let_def)
  next
    case False
    with Cons.IH[OF Cons.prems] show ?thesis by (auto simp add: k qe c Let_def)
  qed
qed

lemma error_diffusion_step_keeps_frozen:
  assumes "list_all2 keeps_frozen orig pix"
    and "error_diffusion_step use_lab rgb2lab color_key w h strength km xy pix = Inr pix'"
  shows "list_all2 keeps_frozen orig pix'"
proof -
  obtain x y where xy: "xy = (x, y)" by (cases xy) auto
  let ?i = "y * w + x"
  obtain o0 o1 o2 o3 where p: "pix ! ?i = (o0, o1, o2, o3)" by (cases "pix ! ?i") auto
  show ?thesis
  proof (cases "o3 = 0")
    case True
    with assms show ?thesis by (simp add: error_diffusion_step_def xy p)
  next
    case False
    from assms(2) False obtain n0 n1 n2 qe where
      s': "pix' = distribute_error (pix[?i := (n0, n1, n2, o3)]) x y w h qe km"
      by (auto simp: error_diffusion_step_def xy p Let_def split: sum.splits option.splits)
    have "list_all2 keeps_frozen orig (pix[?i := (n0, n1, n2, o3)])"
    proof (rule keeps_frozen_update[OF assms(1)])
      assume i: "?i < length orig"
      have "alpha_of (pix ! ?i) = alpha_of (orig ! ?i)"
        by (rule keeps_frozen_alpha[OF assms(1) i])
      then show "alpha_of (orig ! ?i) \<noteq> 0 \<and> alpha_of (n0, n1, n2, o3) = alpha_of (orig ! ?i)"
        using False p by simp
    qed
    then show ?thesis unfolding s' by (rule distribute_error_keeps_frozen)
  qed
qed

lemma error_diffusion_frozen:
  assumes "error_diffusion_dithering use_lab rgb2lab img color_key strength km = Inr out"
  shows "frozen_alpha img out"
proof -
  from assms obtain pix where
    f: "fold_err (error_diffusion_step use_lab rgb2lab color_key (width img) (height img) strength km)
           (raster (width img) (height img)) (pixels img) = Inr pix"
    and o: "out = img\<lparr>pixels := pix\<rparr>"
    by (auto simp: error_diffusion_dithering_def split: sum.splits)
  have "list_all2 keeps_frozen (pixels img) pix"
    by (rule fold_err_invariant[where P = "list_all2 keeps_frozen (pixels img)", OF f keeps_frozen_refl])
      (rule error_diffusion_step_keeps_frozen)
  then show ?thesis unfolding o by (simp add: frozen_alpha_def)
qed

lemma diffuse_unmasked:
  assumes "\<not> alpha_mask ! j"
  shows "diffuse w h alpha_mask quant_error x y km buf ! j = buf ! j"
proof (induction km arbitrary: buf)
  case Nil
  then show ?case by simp
next
  case (Cons k ks)
  obtain dx dy coeff where k: "k = (dx, dy, coeff)" by (cases k) auto
  obtain e0 e1 e2 where qe: "quant_error = (e0, e1, e2)" by (cases quant_error) auto
  let ?i = "nat (int y + dy) * w + nat (int x + dx)"
  obtain n0 n1 n2 n3 where n: "buf ! ?i = (n0, n1, n2, n3)" by (cases "buf ! ?i") auto
  show ?case
  proof (cases "0 \<le> int x + dx \<and> int x + dx < int w \<and> 0 \<le> int y + dy \<and> int y + dy < int h \<and> alpha_mask ! ?i")
    case True
    then have "j \<noteq> ?i" using assms by auto
    then show ?thesis using True Cons.IH by (simp add: k qe n Let_def)
  next
    case False
    then show ?thesis using Cons.IH by (auto simp add: k Let_def)
  qed
qed

lemma distribute_error_frozen_target:
  assumes "alpha_of (pix ! j) = 0"
  shows "distribute_error pix x y w h quant_error km ! j = pix ! j"
  using assms
proof (induction km arbitrary: pix)
  case Nil
  then show ?case by simp
next
  case (Cons k ks)
  obtain dx dy coeff where k: "k = (dx, dy, coeff)" by (cases k) auto
  obtain e0 e1 e2 where qe: "quant_error = (e0, e1, e2)" by (cases quant_error) auto
  let ?i = "nat (int y + dy) * w + nat (int x + dx)"
  obtain c0 c1 c2 c3 where c: "pix ! ?i = (c0, c1, c2, c3)" by (cases "pix ! ?i") auto
  show ?case
  proof (cases "0 \<le> int x + dx \<and> int x + dx < int w \<and> 0 \<le> int y + dy \<and> int y + dy < int h \<and> c3 \<noteq> 0")
    case True
    then have ne: "j \<noteq> ?i" using Cons.prems c by auto
    let ?q = "(word_of_int (clamp255 (of_int (uint c0) + e0 * coeff)) :: byte,
              word_of_int (clamp255 (of_int (uint c1) + e1 * coeff)) :: byte,
              word_of_int (clamp255 (of_int (uint c2) + e2 * coeff)) :: byte, c3)"
    have "alpha_of (pix[?i := ?q] ! j) = 0" using ne Cons.prems by simp
    from Cons.IH[OF this] ne True show ?thesis by (simp add: k qe c Let_def)
  next
    case False
    with Cons.IH[OF Cons.prems] show ?thesis by (auto simp add: k qe c Let_def)
  qed
qed

lemma closest_color_func_total:
  assumes "cs \<noteq> []"
  shows "\<exists>idx. closest_color_func use_lab rgb2lab cs p = Inr idx"
proof -
  have "\<exists>idx. argmin (map f cs) = Inr idx" for f :: "rgb \<Rightarrow> int"
    using argmin_projr[of "map f cs"] assms by auto
  from this[of "\<lambda>c. sum_sq_diff (f32 (rgb2lab c)) (f32 (rgb2lab (u8 p)))"]
       this[of "\<lambda>c. sum_sq_diff (f32 c) p"]
  show ?thesis by (auto simp: closest_color_func_def Let_def comp_def)
qed

lemma diffusion_step_total:
  assumes "cs \<noteq> []"
  shows "\<exists>buf'. diffusion_step use_lab rgb2lab cs alpha_mask w h strength km xy buf = Inr buf'"
proof -
  obtain x y where xy: "xy = (x, y)" by (cases xy) auto
  obtain o0 o1 o2 o3 where ob: "buf ! (y * w + x) = (o0, o1, o2, o3)" by (cases "buf ! (y * w + x)") auto
  from closest_color_func_total[OF assms] obtain idx where
    "closest_color_func use_lab rgb2lab cs (o0, o1, o2) = Inr idx" by blast
  then show ?thesis
    by (cases "f32 (cs ! idx)") (simp add: diffusion_step_def xy ob Let_def)
qed

lemma optimized_total:
  assumes "color_key \<noteq> []"
  shows "\<exists>out. optimized_error_diffusion_dithering use_lab rgb2lab img color_key strength km = Inr out"
proof -
  have cs: "map snd color_key \<noteq> []" using assms by simp
  obtain buf where "fold_err (diffusion_step use_lab rgb2lab (map snd color_key)
           (map (\<lambda>p. 0 < alpha_of p) (pixels img)) (width img) (height img) strength km)
           (raster (width img) (height img)) (map to_int16 (pixels img)) = Inr buf"
    using fold_err_total[of _ "diffusion_step use_lab rgb2lab (map snd color_key)
           (map (\<lambda>p. 0 < alpha_of p) (pixels img)) (width img) (height img) strength km"]
      diffusion_step_total[OF cs] by blast
  then show ?thesis using assms by (simp add: optimized_error_diffusion_dithering_def Let_def)
qed

lemma hybrid_total:
  assumes "color_key \<noteq> []"
  shows "\<exists>out. hybrid_dithering use_lab rgb2lab saliency_map img color_key params = Inr out"
proof -
  have cs: "map snd color_key \<noteq> []" using assms by simp
  let ?step = "\<lambda>xy. case xy of (x, y) \<Rightarrow>
        diffusion_step use_lab rgb2lab (map snd color_key) (map (\<lambda>p. 0 < alpha_of p) (pixels img))
          (width img) (height img) (get_strength params)
          (if 1 / 2 < saliency_map img ! (y * width img + x) then floyd_steinberg_matrix else atkinson_matrix)
          (x, y)"
  have "\<exists>t'. ?step xy t = Inr t'" for xy t
    using diffusion_step_total[OF cs] by (cases xy) simp
  then obtain buf where "fold_err ?step (raster (width img) (height img)) (map to_int16 (pixels img)) = Inr buf"
    using fold_err_total[of _ ?step] by blast
  then show ?thesis using assms by (simp add: hybrid_dithering_def Let_def)
qed

lemma closest_color_func_not_Inl:
  assumes "cs \<noteq> []"
  shows "closest_color_func use_lab rgb2lab cs p \<noteq> Inl e"
  using closest_color_func_total[OF assms, of use_lab rgb2lab p] by auto

lemma ordered_step_total:
  assumes "cs \<noteq> []"
  shows "\<exists>buf'. ordered_step use_lab rgb2lab lab2rgb cs alpha_mask w af xy buf = Inr buf'"
  by (auto simp: ordered_step_def Let_def closest_color_func_not_Inl[OF assms]
      split: sum.splits prod.splits)

lemma ordered_total:
  assumes "color_key \<noteq> []"
  shows "\<exists>out. ordered_dithering use_lab rgb2lab lab2rgb img color_key params = Inr out"
proof -
  have cs: "map snd color_key \<noteq> []" using assms by simp
  obtain buf where "fold_err (ordered_step use_lab rgb2lab lab2rgb (map snd color_key)
           (map (\<lambda>p. 0 < alpha_of p) (pixels img)) (width img) (3 / 10 * get_strength params))
           (raster (width img) (height img)) (map to_int16 (pixels img)) = Inr buf"
    using fold_err_total[of _ "ordered_step use_lab rgb2lab lab2rgb (map snd color_key)
           (map (\<lambda>p. 0 < alpha_of p) (pixels img)) (width img) (3 / 10 * get_strength params)"]
      ordered_step_total[OF cs] by blast
  then show ?thesis using assms by (simp add: ordered_dithering_def Let_def)
qed

lemma nearest_number_key:
  assumes "color_key \<noteq> []"
  shows "\<exists>c. map_of color_key (nearest_number use_lab rgb2lab color_key p) = Some c"
proof -
  let ?ds = "map (\<lambda>e. color_dist use_lab rgb2lab (snd e) p) color_key"
  have "?ds \<noteq> []" using assms by simp
  from argmin_first_min_index[OF this] have "first_min_index ?ds < length color_key" by simp
  then have "nearest_number use_lab rgb2lab color_key p \<in> fst ` set color_key"
    unfolding nearest_number_def by (metis image_eqI nth_mem)
  then show ?thesis by (metis map_of_eq_None_iff not_None_eq)
qed

lemma nearest_number_not_None:
  assumes "color_key \<noteq> []"
  shows "map_of color_key (nearest_number use_lab rgb2lab color_key p) \<noteq> None"
  using nearest_number_key[OF assms, of use_lab rgb2lab p] by auto

lemma random_step_total:
  assumes "color_key \<noteq> []"
  shows "\<exists>st'. random_step use_lab rgb2lab lab2rgb noise color_key w noise_std xy st = Inr st'"
  by (auto simp: random_step_def Let_def find_closest_color_nearest[OF assms]
      nearest_number_not_None[OF assms] split: sum.splits prod.splits option.splits)

lemma random_total:
  assumes "color_key \<noteq> []"
  shows "\<exists>out. random_dithering use_lab rgb2lab lab2rgb noise img color_key params = Inr out"
proof -
  obtain st where "fold_err (random_step use_lab rgb2lab lab2rgb noise color_key (width img)
       (32 * get_strength params)) (raster (width img) (height img)) (pixels img, 0) = Inr st"
    using fold_err_total[of _ "random_step use_lab rgb2lab lab2rgb noise color_key (width img)
       (32 * get_strength params)"] random_step_total[OF assms] by blast
  then show ?thesis by (cases st) (simp add: random_dithering_def Let_def)
qed

lemma error_diffusion_step_total:
  assumes "color_key \<noteq> []"
  shows "\<exists>pix'. error_diffusion_step use_lab rgb2lab color_key w h strength km xy pix = Inr pix'"
  by (auto simp: error_diffusion_step_def Let_def find_closest_color_nearest[OF assms]
      nearest_number_not_None[OF assms] split: sum.splits prod.splits option.splits)

lemma error_diffusion_total:
  assumes "color_key \<noteq> []"
  shows "\<exists>out. error_diffusion_dithering use_lab rgb2lab img color_key strength km = Inr out"
proof -
  obtain pix where "fold_err (error_diffusion_step use_lab rgb2lab color_key (width img) (height img)
       strength km) (raster (width img) (height img)) (pixels img) = Inr pix"
    using fold_err_total[of _ "error_diffusion_step use_lab rgb2lab color_key (width img) (height img)
       strength km"] error_diffusion_step_total[OF assms] by blast
  then show ?thesis by (simp add: error_diffusion_dithering_def)
qed

lemma process_image_modes:
  "process_image use_lab ext img color_key ''Hybrid Dither'' params =
     hybrid_dithering use_lab (cv_rgb2lab ext) (pil_saliency ext) img color_key params"
  "process_image use_lab ext img color_key ''Pattern Dither'' params =
     ordered_dithering use_lab (cv_rgb2lab ext) (cv_lab2rgb ext) img color_key params"
  "process_image use_lab ext img color_key ''Atkinson Dither'' params =
     atkinson_dithering use_lab (cv_rgb2lab ext) img color_key params"
  "process_image use_lab ext img color_key ''Stucki Dither'' params =
     stucki_dithering use_lab (cv_rgb2lab ext) img color_key params"
  "process_image use_lab ext img color_key ''Floyd Dither'' params =
     floyd_steinberg_dithering use_lab (cv_rgb2lab ext) img color_key params"
  "process_image use_lab ext img color_key ''Jarvis Dither'' params =
     jarvis_judice_ninke_dithering use_lab (cv_rgb2lab ext) img color_key params"
  "process_image use_lab ext img color_key ''Sierra Dither'' params =
     sierra2_dithering use_lab (cv_rgb2lab ext) img color_key params"
  "process_image use_lab ext img color_key ''Random Dither'' params =
     random_dithering use_lab (cv_rgb2lab ext) (cv_lab2rgb ext) (np_random ext) img color_key params"
  "process_image use_lab ext img color_key ''Color Match'' params =
     color_matching use_lab (cv_rgb2lab ext) img color_key"
  by (simp_all add: process_image_def)

lemma process_image_dither_frozen:
  assumes "mode \<in> set dither_modes" "process_image use_lab ext img color_key mode params = Inr out"
  shows "frozen_alpha img out"
proof -
  from assms(1) have "mode = ''Hybrid Dither'' \<or> mode = ''Pattern Dither'' \<or>
      mode = ''Atkinson Dither'' \<or> mode = ''Stucki Dither'' \<or> mode = ''Floyd Dither'' \<or>
      mode = ''Jarvis Dither'' \<or> mode = ''Sierra Dither'' \<or> mode = ''Random Dither''"
    unfolding dither_modes_def by (simp only: list.set insert_iff empty_iff simp_thms)
  then show ?thesis
  proof (elim disjE)
    assume "mode = ''Hybrid Dither''"
    with assms(2) show ?thesis by (simp only: process_image_modes hybrid_frozen)
  next
    assume "mode = ''Pattern Dither''"
    with assms(2) show ?thesis by (simp only: process_image_modes ordered_frozen)
  next
    assume "mode = ''Atkinson Dither''"
    with assms(2) show ?thesis by (simp only: process_image_modes atkinson_dithering_def optimized_frozen)
  next
    assume "mode = ''Stucki Dither''"
    with assms(2) show ?thesis by (simp only: process_image_modes stucki_dithering_def optimized_frozen)
  next
    assume "mode = ''Floyd Dither''"
    with assms(2) show ?thesis
      by (simp only: process_image_modes floyd_steinberg_dithering_def optimized_frozen)
  next
    assume "mode = ''Jarvis Dither''"
    with assms(2) show ?thesis
      by (simp only: process_image_modes jarvis_judice_ninke_dithering_def optimized_frozen)
  next
    assume "mode = ''Sierra Dither''"
    with assms(2) show ?thesis by (simp only: process_image_modes sierra2_dithering_def optimized_frozen)
  next
    assume "mode = ''Random Dither''"
    with assms(2) show ?thesis by (simp only: process_image_modes random_frozen)
  qed
qed

text \<open>
  C5. Every dithering function (the error-diffusion loop behind the Atkinson, Stucki,
  Floyd, Jarvis and Sierra methods for any strength and kernel, the variant on PIL's pixel
  access, the hybrid, the ordered and the random method, and the dispatcher on each of
  the eight dithering names), whenever it returns an image, returns one of the same size
  in which every pixel has the alpha of the input pixel and every pixel whose input alpha
  is zero is the input pixel; with a non-empty palette each of them does return an
  image. Inside the loops, a target whose mask bit is unset (alpha zero) is never written
  by the diffusion of an error.
\<close>

theorem dithering_freezes_alpha:
  "(\<forall>out. optimized_error_diffusion_dithering use_lab rgb2lab img color_key strength km = Inr out \<longrightarrow>
        frozen_alpha img out) \<and>
   (\<forall>out. error_diffusion_dithering use_lab rgb2lab img color_key strength km = Inr out \<longrightarrow>
        frozen_alpha img out) \<and>
   (\<forall>out. hybrid_dithering use_lab rgb2lab saliency_map img color_key params = Inr out \<longrightarrow>
        frozen_alpha img out) \<and>
   (\<forall>out. ordered_dithering use_lab rgb2lab lab2rgb img color_key params = Inr out \<longrightarrow>
        frozen_alpha img out) \<and>
   (\<forall>out. random_dithering use_lab rgb2lab lab2rgb noise img color_key params = Inr out \<longrightarrow>
        frozen_alpha img out) \<and>
   (\<forall>out mode. mode \<in> set dither_modes \<and> process_image use_lab ext img color_key mode params = Inr out \<longrightarrow>
        frozen_alpha img out) \<and>
   (color_key \<noteq> [] \<longrightarrow>
      (\<exists>out. optimized_error_diffusion_dithering use_lab rgb2lab img color_key strength km = Inr out) \<and>
      (\<exists>out. error_diffusion_dithering use_lab rgb2lab img color_key strength km = Inr out) \<and>
      (\<exists>out. hybrid_dithering use_lab rgb2lab saliency_map img color_key params = Inr out) \<and>
      (\<exists>out. ordered_dithering use_lab rgb2lab lab2rgb img color_key params = Inr out) \<and>
      (\<exists>out. random_dithering use_lab rgb2lab lab2rgb noise img color_key params = Inr out)) \<and>
   (\<forall>j. \<not> alpha_mask ! j \<longrightarrow> diffuse w h alpha_mask quant_error x y km buf ! j = buf ! j) \<and>
   (\<forall>j. alpha_of (pix ! j) = 0 \<longrightarrow> distribute_error pix x y w h quant_error km ! j = pix ! j)"
proof -
  have 1: "\<forall>out. optimized_error_diffusion_dithering use_lab rgb2lab img color_key strength km = Inr out \<longrightarrow>
        frozen_alpha img out"
    using optimized_frozen by blast
  have 2: "\<forall>out. error_diffusion_dithering use_lab rgb2lab img color_key strength km = Inr out \<longrightarrow>
        frozen_alpha img out"
    using error_diffusion_frozen by blast
  have 3: "\<forall>out. hybrid_dithering use_lab rgb2lab saliency_map img color_key params = Inr out \<longrightarrow>
        frozen_alpha img out"
    using hybrid_frozen by blast
  have 4: "\<forall>out. ordered_dithering use_lab rgb2lab lab2rgb img color_key params = Inr out \<longrightarrow>
        frozen_alpha img out"
    using ordered_frozen by blast
  have 5: "\<forall>out. random_dithering use_lab rgb2lab lab2rgb noise img color_key params = Inr out \<longrightarrow>
        frozen_alpha img out"
    using random_frozen by blast
  have 6: "\<forall>out mode. mode \<in> set dither_modes \<and>
        process_image use_lab ext img color_key mode params = Inr out \<longrightarrow> frozen_alpha img out"
    using process_image_dither_frozen by blast
  have 7: "color_key \<noteq> [] \<longrightarrow>
      (\<exists>out. optimized_error_diffusion_dithering use_lab rgb2lab img color_key strength km = Inr out) \<and>
      (\<exists>out. error_diffusion_dithering use_lab rgb2lab img color_key strength km = Inr out) \<and>
      (\<exists>out. hybrid_dithering use_lab rgb2lab saliency_map img color_key params = Inr out) \<and>
      (\<exists>out. ordered_dithering use_lab rgb2lab lab2rgb img color_key params = Inr out) \<and>
      (\<exists>out. random_dithering use_lab rgb2lab lab2rgb noise img color_key params = Inr out)"
    by (intro impI conjI optimized_total error_diffusion_total hybrid_total ordered_total random_total)
  have 8: "\<forall>j. \<not> alpha_mask ! j \<longrightarrow> diffuse w h alpha_mask quant_error x y km buf ! j = buf ! j"
    by (intro allI impI diffuse_unmasked)
  have 9: "\<forall>j. alpha_of (pix ! j) = 0 \<longrightarrow> distribute_error pix x y w h quant_error km ! j = pix ! j"
    by (intro allI impI distribute_error_frozen_target)
  show ?thesis
    by (rule conjI[OF 1 conjI[OF 2 conjI[OF 3 conjI[OF 4 conjI[OF 5 conjI[OF 6 conjI[OF 7 conjI[OF 8 9]]]]]]]])
qed

theorem dithering_freezes_alpha_witness:
  "process_image False demo_externals bordered_3x3 bw_color_key ''Floyd Dither'' no_params =
     Inr \<lparr>width = 3, height = 3,
          pixels = [(9, 9, 9, 0), (0, 0, 0, 100), (9, 9, 9, 0),
                    (0, 0, 0, 191), (255, 255, 255, 255), (9, 9, 9, 0),
                    (9, 9, 9, 0), (0, 0, 0, 50), (9, 9, 9, 0)]\<rparr> \<and>
   frozen_alpha bordered_3x3
     \<lparr>width = 3, height = 3,
      pixels = [(9, 9, 9, 0), (0, 0, 0, 100), (9, 9, 9, 0),
                (0, 0, 0, 191), (255, 255, 255, 255), (9, 9, 9, 0),
                (9, 9, 9, 0), (0, 0, 0, 50), (9, 9, 9, 0)]\<rparr>"
proof -
  let ?out = "\<lparr>width = 3, height = 3,
          pixels = [(9, 9, 9, 0), (0, 0, 0, 100), (9, 9, 9, 0),
                    (0, 0, 0, 191), (255, 255, 255, 255), (9, 9, 9, 0),
                    (9, 9, 9, 0), (0, 0, 0, 50), (9, 9, 9, 0)]\<rparr> :: image"
  have p: "process_image False demo_externals bordered_3x3 bw_color_key ''Floyd Dither'' no_params = Inr ?out"
    unfolding process_image_modes by code_simp
  have m: "''Floyd Dither'' \<in> set dither_modes"
    by (simp add: dither_modes_def)
  note c6 = dithering_freezes_alpha[THEN conjunct2, THEN conjunct2, THEN conjunct2, THEN conjunct2,
      THEN conjunct2, THEN conjunct1, rule_format]
  have "frozen_alpha bordered_3x3 ?out"
    by (rule c6[of "''Floyd Dither''" False demo_externals bordered_3x3 bw_color_key no_params ?out])
      (simp only: m p simp_thms)
  with p show ?thesis by (rule conjI)
qed

section \<open>The empty palette\<close>

lemma set_raster: "set (raster w h) = {(x, y). x < w \<and> y < h}"
  by (auto simp: raster_def)

lemma length_raster: "length (raster w h) = w * h"
  by (simp add: raster_def length_concat comp_def sum_list_triv mult.commute)

lemma raster_index_cover:
  assumes "i < w * h"
  shows "\<exists>xy \<in> set (raster w h). (case xy of (x, y) \<Rightarrow> y * w + x) = i"
proof -
  have w: "0 < w" using assms by (cases w) auto
  have "i div w < h" using assms w by (simp add: less_mult_imp_div_less mult.commute)
  moreover have "i mod w < w" using w by simp
  moreover have "(i div w) * w + i mod w = i" by simp
  ultimately have "(i mod w, i div w) \<in> set (raster w h) \<and> (i div w) * w + i mod w = i"
    by (simp add: set_raster)
  then show ?thesis by (intro bexI[of _ "(i mod w, i div w)"]) auto
qed

lemma fold_err_stuck:
  assumes "\<And>x. x \<in> set xs \<Longrightarrow> f x s = Inr s \<or> f x s = Inl e"
  shows "fold_err f xs s = (if \<exists>x\<in>set xs. f x s = Inl e then Inl e else Inr s)"
  using assms
proof (induction xs)
  case Nil
  then show ?case by simp
next
  case (Cons a xs)
  have ih: "fold_err f xs s = (if \<exists>x\<in>set xs. f x s = Inl e then Inl e else Inr s)"
    using Cons.prems by (intro Cons.IH) simp
  from Cons.prems[of a] have "f a s = Inr s \<or> f a s = Inl e" by simp
  then show ?case
  proof
    assume "f a s = Inr s"
    then show ?thesis using ih by simp
  next
    assume "f a s = Inl e"
    then show ?thesis by simp
  qed
qed

lemma closest_color_func_empty: "closest_color_func False rgb2lab [] p = Inl ValueError"
  by (simp add: closest_color_func_def argmin_def)

lemma diffusion_step_empty:
  "diffusion_step False rgb2lab [] alpha_mask w h strength km (x, y) buf =
     (if alpha_mask ! (y * w + x) then Inl ValueError else Inr buf)"
  by (cases "buf ! (y * w + x)") (simp add: diffusion_step_def closest_color_func_empty)

lemma optimized_empty_palette:
  assumes "length (pixels img) = width img * height img"
  shows "optimized_error_diffusion_dithering False rgb2lab img [] strength km =
     (if \<forall>p\<in>set (pixels img). alpha_of p = 0 then Inr img else Inl ValueError)"
proof -
  let ?mask = "map (\<lambda>p. 0 < alpha_of p) (pixels img)"
  let ?f = "diffusion_step False rgb2lab [] ?mask (width img) (height img) strength km"
  let ?buf = "map to_int16 (pixels img)"
  have st: "?f xy ?buf = Inr ?buf \<or> ?f xy ?buf = Inl ValueError" for xy
    by (cases xy) (simp add: diffusion_step_empty)
  have fe: "fold_err ?f (raster (width img) (height img)) ?buf =
      (if \<exists>xy\<in>set (raster (width img) (height img)). ?f xy ?buf = Inl ValueError
       then Inl ValueError else Inr ?buf)"
    by (rule fold_err_stuck) (rule st)
  have ex: "(\<exists>xy\<in>set (raster (width img) (height img)). ?f xy ?buf = Inl ValueError) \<longleftrightarrow>
      \<not> (\<forall>p\<in>set (pixels img). alpha_of p = 0)"
  proof
    assume "\<exists>xy\<in>set (raster (width img) (height img)). ?f xy ?buf = Inl ValueError"
    then obtain x y where xy: "x < width img" "y < height img" "?mask ! (y * width img + x)"
      by (auto simp: set_raster diffusion_step_empty split: if_splits)
    have i: "y * width img + x < length (pixels img)"
      using raster_index_less[OF xy(1,2)] assms by simp
    with xy(3) have "alpha_of (pixels img ! (y * width img + x)) \<noteq> 0" by auto
    with i show "\<not> (\<forall>p\<in>set (pixels img). alpha_of p = 0)" using nth_mem by blast
  next
    assume "\<not> (\<forall>p\<in>set (pixels img). alpha_of p = 0)"
    then obtain i where i: "i < length (pixels img)" "alpha_of (pixels img ! i) \<noteq> 0"
      by (auto simp: in_set_conv_nth)
    from raster_index_cover[of i "width img" "height img"] i(1) assms
    obtain x y where xy: "(x, y) \<in> set (raster (width img) (height img))" "y * width img + x = i"
      by auto
    have "?mask ! i" using i by (simp add: word_greater_zero_iff)
    then have "?f (x, y) ?buf = Inl ValueError" using xy(2) by (simp add: diffusion_step_empty)
    with xy(1) show "\<exists>xy\<in>set (raster (width img) (height img)). ?f xy ?buf = Inl ValueError" by blast
  qed
  have "map clip_pixel ?buf = pixels img"
    by (simp add: comp_def clip_pixel_to_int16)
  then have cl: "img\<lparr>pixels := map clip_pixel ?buf\<rparr> = img"
    by simp
  show ?thesis
    unfolding optimized_error_diffusion_dithering_def Let_def
    by (simp only: list.map simp_thms if_False fe ex cl sum.case if_distrib[of "case_sum _ _"] split: if_splits)
      blast
qed

lemma stamp_pixel_empty: "stamp_pixel use_lab rgb2lab img [] h y x = []"
  by (auto simp: stamp_pixel_def find_closest_color_def split: sum.splits)

lemma for_range_nil: "(\<And>i. body i = []) \<Longrightarrow> for_range n body = []"
  by (induction n) simp_all

lemma for_range_down_nil: "(\<And>i. body i = []) \<Longrightarrow> for_range_down n body = []"
  by (induction n) simp_all

lemma write_stamp_empty:
  "write_stamp use_lab rgb2lab img [] = [ImgHeader (of_nat (width img) / 10) (of_nat (height img) / 10)]"
  by (simp add: write_stamp_def Let_def round1_tenth_div stamp_pixel_empty for_range_nil for_range_down_nil)

text \<open>
  C7 (amended). No processing operation validates the palette. \<open>build_color_key\<close>
  returns the empty colour key for an empty list of entries. With an empty colour key:
  \<open>Color Match\<close> fails with the \<open>IndexError\<close> of the array indexing (in LAB mode with
  the error of OpenCV); error-diffusion dithering fails in LAB mode with the error of
  OpenCV, and in RGB mode it returns the image unchanged when every pixel has alpha zero
  and fails with the \<open>ValueError\<close> of the distance computation otherwise; the stamp
  writer writes the header and no point line.
\<close>

theorem empty_palette_not_validated:
  "build_color_key [] = Inr [] \<and>
   color_matching False rgb2lab img [] = Inl IndexError \<and>
   (pixels img \<noteq> [] \<longrightarrow> color_matching True rgb2lab img [] = Inl CvError) \<and>
   optimized_error_diffusion_dithering True rgb2lab img [] strength km = Inl CvError \<and>
   (length (pixels img) = width img * height img \<longrightarrow>
      optimized_error_diffusion_dithering False rgb2lab img [] strength km =
        (if \<forall>p\<in>set (pixels img). alpha_of p = 0 then Inr img else Inl ValueError)) \<and>
   write_stamp use_lab rgb2lab img [] = [ImgHeader (of_nat (width img) / 10) (of_nat (height img) / 10)]"
proof -
  have 1: "build_color_key [] = Inr []" by (simp add: build_color_key_def)
  have 2: "color_matching False rgb2lab img [] = Inl IndexError"
    by (simp add: color_matching_def find_closest_colors_image_def)
  have 3: "pixels img \<noteq> [] \<longrightarrow> color_matching True rgb2lab img [] = Inl CvError"
    by (simp add: color_matching_def find_closest_colors_image_def)
  have 4: "optimized_error_diffusion_dithering True rgb2lab img [] strength km = Inl CvError"
    by (simp add: optimized_error_diffusion_dithering_def)
  have 5: "length (pixels img) = width img * height img \<longrightarrow>
      optimized_error_diffusion_dithering False rgb2lab img [] strength km =
        (if \<forall>p\<in>set (pixels img). alpha_of p = 0 then Inr img else Inl ValueError)"
    using optimized_empty_palette by blast
  note 6 = write_stamp_empty[of use_lab rgb2lab img]
  show ?thesis by (rule conjI[OF 1 conjI[OF 2 conjI[OF 3 conjI[OF 4 conjI[OF 5 6]]]]])
qed

theorem empty_palette_not_validated_witness:
  "optimized_error_diffusion_dithering False id transparent_1x1 [] 1 atkinson_matrix = Inr transparent_1x1 \<and>
   optimized_error_diffusion_dithering False id gray_1x1 [] 1 atkinson_matrix = Inl ValueError"
proof -
  have a: "length (pixels transparent_1x1) = width transparent_1x1 * height transparent_1x1"
    by (simp add: transparent_1x1_def)
  have b: "length (pixels gray_1x1) = width gray_1x1 * height gray_1x1"
    by (simp add: gray_1x1_def)
  note t = empty_palette_not_validated[THEN conjunct2, THEN conjunct2, THEN conjunct2, THEN conjunct2,
      THEN conjunct1, rule_format]
  from t[OF a, of id 1 atkinson_matrix] t[OF b, of id 1 atkinson_matrix]
  show ?thesis by (simp add: transparent_1x1_def gray_1x1_def)
qed

text \<open>
  With an empty palette the colour key is built, the Atkinson method returns a fully
  transparent image as it is, and a stamp is written.
\<close>

theorem empty_palette_counterexample:
  "build_color_key [] = Inr [] \<and>
   process_image False demo_externals transparent_1x1 [] ''Atkinson Dither'' no_params = Inr transparent_1x1 \<and>
   save_image False id transparent_1x1 [] = [ImgHeader (1 / 10) (1 / 10)]"
proof -
  have "process_image False demo_externals transparent_1x1 [] ''Atkinson Dither'' no_params =
      Inr transparent_1x1"
    unfolding process_image_modes by code_simp
  moreover have "build_color_key [] = Inr []" by (simp add: build_color_key_def)
  moreover have "save_image False id transparent_1x1 [] = [ImgHeader (1 / 10) (1 / 10)]"
    by code_simp
  ultimately show ?thesis by simp
qed

section \<open>Random dithering and the generator\<close>

lemma random_step_counter:
  assumes "random_step use_lab rgb2lab lab2rgb noise color_key w noise_std xy (pix, k) = Inr (pix', k')"
  shows "k' \<le> k + 3"
  using assms
  by (cases xy; cases "pix ! (snd xy * w + fst xy)")
     (auto simp: random_step_def Let_def split: if_splits sum.splits option.splits prod.splits)

lemma random_step_noise_cong:
  assumes "noise k = noise' k" "noise (k + 1) = noise' (k + 1)" "noise (k + 2) = noise' (k + 2)"
  shows "random_step use_lab rgb2lab lab2rgb noise color_key w noise_std xy (pix, k) =
         random_step use_lab rgb2lab lab2rgb noise' color_key w noise_std xy (pix, k)"
  by (cases xy) (simp only: random_step_def prod.case assms)

lemma random_fold_noise_cong:
  assumes "\<forall>j < k + 3 * length xs. noise j = noise' j"
  shows "fold_err (random_step use_lab rgb2lab lab2rgb noise color_key w noise_std) xs (pix, k) =
         fold_err (random_step use_lab rgb2lab lab2rgb noise' color_key w noise_std) xs (pix, k)"
  using assms
proof (induction xs arbitrary: pix k)
  case Nil
  then show ?case by simp
next
  case (Cons xy xs)
  have e: "random_step use_lab rgb2lab lab2rgb noise color_key w noise_std xy (pix, k) =
         random_step use_lab rgb2lab lab2rgb noise' color_key w noise_std xy (pix, k)"
    using Cons.prems by (intro random_step_noise_cong) simp_all
  show ?case
  proof (cases "random_step use_lab rgb2lab lab2rgb noise' color_key w noise_std xy (pix, k)")
    case (Inl err)
    then show ?thesis using e by simp
  next
    case (Inr st)
    obtain pix' k' where st: "st = (pix', k')" by (cases st) auto
    have "k' \<le> k + 3" using random_step_counter[of use_lab rgb2lab lab2rgb noise' color_key w noise_std xy pix k pix' k']
      Inr st by simp
    then have "\<forall>j < k' + 3 * length xs. noise j = noise' j" using Cons.prems by simp
    from Cons.IH[OF this, of pix'] show ?thesis using e Inr st by simp
  qed
qed

text \<open>
  C8 (amended). Random dithering has no seed parameter: of \<open>params\<close> it reads
  \<open>strength\<close> alone, and its result on an image is fixed by the image, the palette,
  the strength and the first \<open>3 * width * height\<close> draws of the generator of the
  process. Two runs agree whenever they agree on these, whatever else \<open>params\<close> holds.
  (The ordered and the error-diffusion functions take no generator at all.)
\<close>

theorem random_dithering_inputs:
  assumes "params ''strength'' = params' ''strength''"
    and "\<forall>j < 3 * (width img * height img). noise j = noise' j"
  shows "random_dithering use_lab rgb2lab lab2rgb noise img color_key params =
         random_dithering use_lab rgb2lab lab2rgb noise' img color_key params'"
proof -
  have s: "get_strength params = get_strength params'" using assms(1) by (simp add: get_strength_def)
  have "\<forall>j < 0 + 3 * length (raster (width img) (height img)). noise j = noise' j"
    using assms(2) by (simp add: length_raster)
  from random_fold_noise_cong[OF this] show ?thesis
    by (simp add: random_dithering_def s)
qed

theorem random_dithering_inputs_witness:
  "seed_params ''strength'' = no_params ''strength'' \<and>
   random_dithering False id id noise_high gray_1x1 bw_color_key seed_params =
   random_dithering False id id noise_high gray_1x1 bw_color_key no_params \<and>
   random_dithering False id id noise_high gray_1x1 bw_color_key no_params =
     Inr \<lparr>width = 1, height = 1, pixels = [(255, 255, 255, 255)]\<rparr>"
proof -
  have h: "seed_params ''strength'' = no_params ''strength''"
    by (simp add: seed_params_def no_params_def)
  have n: "\<forall>j < 3 * (width gray_1x1 * height gray_1x1). noise_high j = noise_high j" by simp
  have v: "random_dithering False id id noise_high gray_1x1 bw_color_key no_params =
     Inr \<lparr>width = 1, height = 1, pixels = [(255, 255, 255, 255)]\<rparr>"
    by code_simp
  from random_dithering_inputs[where params = seed_params and params' = no_params and img = gray_1x1
      and noise = noise_high and noise' = noise_high and use_lab = False and ?rgb2lab = id and ?lab2rgb = id
      and color_key = bw_color_key, OF h n] h v
  show ?thesis by simp
qed

text \<open>
  Two runs on the same image, palette and parameters, a seed among them, that differ
  only in what the generator of the process draws, give different images.
\<close>

theorem random_dithering_seed_counterexample:
  "random_dithering False id id noise_zero gray_1x1 bw_color_key seed_params =
     Inr \<lparr>width = 1, height = 1, pixels = [(0, 0, 0, 255)]\<rparr> \<and>
   random_dithering False id id noise_high gray_1x1 bw_color_key seed_params =
     Inr \<lparr>width = 1, height = 1, pixels = [(255, 255, 255, 255)]\<rparr> \<and>
   random_dithering False id id noise_zero gray_1x1 bw_color_key seed_params \<noteq>
   random_dithering False id id noise_high gray_1x1 bw_color_key seed_params"
proof -
  have a: "random_dithering False id id noise_zero gray_1x1 bw_color_key seed_params =
     Inr \<lparr>width = 1, height = 1, pixels = [(0, 0, 0, 255)]\<rparr>"
    by code_simp
  have b: "random_dithering False id id noise_high gray_1x1 bw_color_key seed_params =
     Inr \<lparr>width = 1, height = 1, pixels = [(255, 255, 255, 255)]\<rparr>"
    by code_simp
  show ?thesis unfolding a b by simp
qed

section \<open>Frame deltas of the animation encoder\<close>

lemma all_positions_props:
  "distinct (all_positions a b)" "set (all_positions a b) = fst ` set a \<union> fst ` set b"
  by (simp_all add: all_positions_def)

lemma frame_diffs_filter:
  "frame_diffs prev cur =
     map (\<lambda>k. (fst k, snd k, dict_get cur k))
       (filter (\<lambda>k. dict_get cur k \<noteq> dict_get prev k) (all_positions prev cur))"
proof -
  have "concat (map (\<lambda>xy. case xy of (x, y) \<Rightarrow>
        (let prev_color_num = dict_get prev (x, y);
             current_color_num = dict_get cur (x, y)
         in if current_color_num \<noteq> prev_color_num
            then (if current_color_num = - 1 then [(x, y, - 1)] else [(x, y, current_color_num)])
            else [])) ps) =
     map (\<lambda>k. (fst k, snd k, dict_get cur k)) (filter (\<lambda>k. dict_get cur k \<noteq> dict_get prev k) ps)" for ps
    by (induction ps) (auto simp: Let_def)
  then show ?thesis by (simp add: frame_diffs_def)
qed

lemma frame_diffs_coords:
  "map (\<lambda>d. (fst d, fst (snd d))) (frame_diffs prev cur) =
     filter (\<lambda>k. dict_get cur k \<noteq> dict_get prev k) (all_positions prev cur)"
  by (simp add: frame_diffs_filter comp_def)

lemma frame_diffs_distinct: "distinct (map (\<lambda>d. (fst d, fst (snd d))) (frame_diffs prev cur))"
  by (simp add: frame_diffs_coords all_positions_props)

lemma frame_diffs_set:
  "set (frame_diffs prev cur) = (\<lambda>k. (fst k, snd k, dict_get cur k)) ` changed prev cur"
proof -
  have "set (filter (\<lambda>k. dict_get cur k \<noteq> dict_get prev k) (all_positions prev cur)) = changed prev cur"
    by (auto simp: all_positions_props changed_def)
  then show ?thesis by (simp add: frame_diffs_filter)
qed

lemma frame_diffs_length: "length (frame_diffs prev cur) = card (changed prev cur)"
proof -
  have "set (filter (\<lambda>k. dict_get cur k \<noteq> dict_get prev k) (all_positions prev cur)) = changed prev cur"
    by (auto simp: all_positions_props changed_def)
  moreover have "distinct (filter (\<lambda>k. dict_get cur k \<noteq> dict_get prev k) (all_positions prev cur))"
    by (simp add: all_positions_props)
  ultimately have "card (changed prev cur) =
      length (filter (\<lambda>k. dict_get cur k \<noteq> dict_get prev k) (all_positions prev cur))"
    using distinct_card by metis
  then show ?thesis by (simp add: frame_diffs_filter)
qed

lemma frame_diffs_unchanged:
  assumes "changed prev cur = {}"
  shows "frame_diffs prev cur = []"
  using frame_diffs_length[of prev cur] assms by simp

lemma frame_diffs_single:
  assumes "changed prev cur = {k}"
  shows "frame_diffs prev cur = [(fst k, snd k, dict_get cur k)]"
proof -
  have "length (frame_diffs prev cur) = 1" using frame_diffs_length[of prev cur] assms by simp
  then obtain d where d: "frame_diffs prev cur = [d]"
    by (cases "frame_diffs prev cur") auto
  have "set (frame_diffs prev cur) = {(fst k, snd k, dict_get cur k)}"
    using frame_diffs_set[of prev cur] assms by simp
  with d show ?thesis by simp
qed

lemma collect_fold:
  assumes "fold_err (collect_step use_lab rgb2lab frame color_key) ks acc = Inr m"
  shows "(\<forall>k\<in>set ks. \<exists>v. frame_pixel_color use_lab rgb2lab frame color_key k = Inr v) \<and>
         map_of m = (\<lambda>k. if k \<in> set ks then Some (projr (frame_pixel_color use_lab rgb2lab frame color_key k))
                          else map_of acc k)"
  using assms
proof (induction ks arbitrary: acc)
  case Nil
  then show ?case by simp
next
  case (Cons x ks)
  from Cons.prems obtain acc' where s: "collect_step use_lab rgb2lab frame color_key x acc = Inr acc'"
    and r': "fold_err (collect_step use_lab rgb2lab frame color_key) ks acc' = Inr m"
    by (auto split: sum.splits)
  from s obtain v where v: "frame_pixel_color use_lab rgb2lab frame color_key x = Inr v"
    and acc': "acc' = AList.update x v acc"
    by (auto simp: collect_step_def split: sum.splits)
  have r: "fold_err (collect_step use_lab rgb2lab frame color_key) ks (AList.update x v acc) = Inr m"
    using r' acc' by simp
  from Cons.IH[OF r] have a: "\<forall>k\<in>set ks. \<exists>v. frame_pixel_color use_lab rgb2lab frame color_key k = Inr v"
    and b: "map_of m = (\<lambda>k. if k \<in> set ks then Some (projr (frame_pixel_color use_lab rgb2lab frame color_key k))
                          else map_of (AList.update x v acc) k)"
    by simp_all
  have "map_of m k = (if k \<in> set (x # ks) then Some (projr (frame_pixel_color use_lab rgb2lab frame color_key k))
                          else map_of acc k)" for k
    unfolding b using v by (simp add: update_conv')
  then show ?case using a v by auto
qed

lemma first_frame_step_cases:
  assumes "first_frame_step use_lab rgb2lab frame color_key k (acc, out) = Inr st"
  shows "\<exists>v. frame_pixel_color use_lab rgb2lab frame color_key k = Inr v \<and>
     (if visible_at frame k then \<exists>out'. st = (AList.update k v acc, out') else st = (acc, out) \<and> v = - 1)"
proof -
  obtain x y where k: "k = (x, y)" by (cases k) auto
  from assms obtain r g b a where g: "getpixel frame x y = Inr (r, g, b, a)"
    by (cases "getpixel frame x y") (auto simp: first_frame_step_def k)
  show ?thesis
  proof (cases "a \<le> 191")
    case True
    then have "\<not> 191 < a" by simp
    with True assms g show ?thesis
      by (auto simp: first_frame_step_def frame_pixel_color_def visible_at_def k)
  next
    case False
    then have "191 < a" by simp
    with False assms g show ?thesis
      by (auto simp: first_frame_step_def frame_pixel_color_def visible_at_def k split: sum.splits)
  qed
qed

lemma first_fold:
  assumes "fold_err (first_frame_step use_lab rgb2lab frame color_key) ks (acc, out) = Inr (m, out')"
  shows "(\<forall>k\<in>set ks. \<exists>v. frame_pixel_color use_lab rgb2lab frame color_key k = Inr v \<and>
                          (\<not> visible_at frame k \<longrightarrow> v = - 1)) \<and>
         map_of m = (\<lambda>k. if k \<in> set ks \<and> visible_at frame k
                          then Some (projr (frame_pixel_color use_lab rgb2lab frame color_key k))
                          else map_of acc k)"
  using assms
proof (induction ks arbitrary: acc out)
  case Nil
  then show ?case by simp
next
  case (Cons x ks)
  from Cons.prems obtain st where s: "first_frame_step use_lab rgb2lab frame color_key x (acc, out) = Inr st"
    and r: "fold_err (first_frame_step use_lab rgb2lab frame color_key) ks st = Inr (m, out')"
    by (auto split: sum.splits)
  obtain acc1 out1 where st: "st = (acc1, out1)" by (cases st) auto
  from first_frame_step_cases[OF s] obtain v where v: "frame_pixel_color use_lab rgb2lab frame color_key x = Inr v"
    and c: "if visible_at frame x then \<exists>out2. st = (AList.update x v acc, out2) else st = (acc, out) \<and> v = - 1"
    by blast
  from Cons.IH[OF r[unfolded st]]
  have a: "\<forall>k\<in>set ks. \<exists>v. frame_pixel_color use_lab rgb2lab frame color_key k = Inr v \<and>
                          (\<not> visible_at frame k \<longrightarrow> v = - 1)"
    and b: "map_of m = (\<lambda>k. if k \<in> set ks \<and> visible_at frame k
                          then Some (projr (frame_pixel_color use_lab rgb2lab frame color_key k))
                          else map_of acc1 k)"
    by simp_all
  have m1: "map_of acc1 = (if visible_at frame x then (map_of acc)(x \<mapsto> v) else map_of acc)"
    using c st by (auto simp: update_conv')
  have "map_of m k = (if k \<in> set (x # ks) \<and> visible_at frame k
                          then Some (projr (frame_pixel_color use_lab rgb2lab frame color_key k))
                          else map_of acc k)" for k
    unfolding b m1 using v by simp
  moreover have "\<not> visible_at frame x \<longrightarrow> v = - 1" using c by auto
  ultimately show ?case using a v by auto
qed

lemma same_frame_unchanged:
  assumes "first_frame_pass use_lab rgb2lab frame color_key = Inr (m1, points)"
    and "collect_frame_pixels use_lab rgb2lab (width frame) (height frame) frame color_key = Inr m2"
  shows "changed m1 m2 = {}"
proof -
  let ?R = "set (raster (width frame) (height frame))"
  let ?c = "\<lambda>k. projr (frame_pixel_color use_lab rgb2lab frame color_key k)"
  from first_fold[OF assms(1)[unfolded first_frame_pass_def]]
  have f: "\<forall>k\<in>?R. \<exists>v. frame_pixel_color use_lab rgb2lab frame color_key k = Inr v \<and>
                          (\<not> visible_at frame k \<longrightarrow> v = - 1)"
    and m1': "map_of m1 = (\<lambda>k. if k \<in> ?R \<and> visible_at frame k then Some (?c k) else map_of [] k)"
    by blast+
  have m1: "map_of m1 k = (if k \<in> ?R \<and> visible_at frame k then Some (?c k) else None)" for k
    unfolding m1' by simp
  from collect_fold[OF assms(2)[unfolded collect_frame_pixels_def]]
  have m2': "map_of m2 = (\<lambda>k. if k \<in> ?R then Some (?c k) else map_of [] k)"
    by blast
  have m2: "map_of m2 k = (if k \<in> ?R then Some (?c k) else None)" for k
    unfolding m2' by simp
  have "dict_get m2 k = dict_get m1 k" for k
  proof (cases "k \<in> ?R")
    case False
    then show ?thesis by (simp add: dict_get_def m1 m2)
  next
    case True
    with f obtain v where "frame_pixel_color use_lab rgb2lab frame color_key k = Inr v"
      "\<not> visible_at frame k \<longrightarrow> v = - 1" by blast
    with True show ?thesis by (simp add: dict_get_def m1 m2)
  qed
  then show ?thesis by (simp add: changed_def)
qed

lemma write_block_shape:
  assumes "write_block uniform_delay delays i hn ds = Inr block"
  shows "\<exists>delay. block = FrameHeader hn delay # map diff_line ds"
  using assms by (auto simp: write_block_def split: if_splits)

lemma frames_loop_blocks:
  assumes "frames_loop use_lab rgb2lab w h color_key ud delays fn frames (prev, hn, acc) = Inr (last_map, hn', out)"
  shows "\<exists>maps blocks. length maps = length frames \<and> length blocks = length frames \<and>
     out = acc @ blocks \<and> hn' = hn + length frames \<and> last_map = last (prev # maps) \<and>
     (\<forall>i<length frames.
        collect_frame_pixels use_lab rgb2lab w h (frames ! i) color_key = Inr (maps ! i) \<and>
        (\<exists>delay. blocks ! i =
           FrameHeader (hn + i) delay # map diff_line (frame_diffs ((prev # maps) ! i) (maps ! i))))"
  using assms
proof (induction frames arbitrary: prev hn fn acc)
  case Nil
  then show ?case by simp
next
  case (Cons f fs)
  from Cons.prems obtain cur block where c: "collect_frame_pixels use_lab rgb2lab w h f color_key = Inr cur"
    and wb: "write_block ud delays (fn - 1) hn (frame_diffs prev cur) = Inr block"
    and r: "frames_loop use_lab rgb2lab w h color_key ud delays (Suc fn) fs (cur, Suc hn, acc @ [block]) =
              Inr (last_map, hn', out)"
    by (auto split: sum.splits)
  from write_block_shape[OF wb] obtain delay where
    bl: "block = FrameHeader hn delay # map diff_line (frame_diffs prev cur)" by blast
  from Cons.IH[OF r] obtain maps blocks where ih: "length maps = length fs" "length blocks = length fs"
    "out = (acc @ [block]) @ blocks" "hn' = Suc hn + length fs" "last_map = last (cur # maps)"
    "\<forall>i<length fs.
        collect_frame_pixels use_lab rgb2lab w h (fs ! i) color_key = Inr (maps ! i) \<and>
        (\<exists>delay. blocks ! i =
           FrameHeader (Suc hn + i) delay # map diff_line (frame_diffs ((cur # maps) ! i) (maps ! i)))"
    by blast
  have "\<forall>i<length (f # fs).
        collect_frame_pixels use_lab rgb2lab w h ((f # fs) ! i) color_key = Inr ((cur # maps) ! i) \<and>
        (\<exists>delay. (block # blocks) ! i =
           FrameHeader (hn + i) delay # map diff_line (frame_diffs ((prev # cur # maps) ! i) ((cur # maps) ! i)))"
  proof (intro allI impI)
    fix i assume i: "i < length (f # fs)"
    show "collect_frame_pixels use_lab rgb2lab w h ((f # fs) ! i) color_key = Inr ((cur # maps) ! i) \<and>
        (\<exists>delay. (block # blocks) ! i =
           FrameHeader (hn + i) delay # map diff_line (frame_diffs ((prev # cur # maps) ! i) ((cur # maps) ! i)))"
    proof (cases i)
      case 0
      then show ?thesis using c bl by simp
    next
      case (Suc j)
      then have "j < length fs" using i by simp
      with ih(6) Suc show ?thesis by simp
    qed
  qed
  then show ?case
    using ih(1-5) by (intro exI[of _ "cur # maps"] exI[of _ "block # blocks"]) simp
qed

lemma changed_same: "changed m m = {}"
  by (simp add: changed_def)

lemma process_and_save_gif_parts:
  assumes "process_and_save_gif use_lab rgb2lab frames delays color_key = Inr (stamp, blocks)"
    and "2 \<le> length frames"
  shows "\<exists>m1 points last_map hn ff closing.
     first_frame_pass use_lab rgb2lab (hd frames) color_key = Inr (m1, points) \<and>
     frames_loop use_lab rgb2lab (width (hd frames)) (height (hd frames)) color_key
        (uniform_delay_of delays) delays 2 (tl frames) (m1, 1, []) = Inr (last_map, hn, ff) \<and>
     write_block (uniform_delay_of delays) delays 0 hn (closing_diffs m1 last_map) = Inr closing \<and>
     blocks = ff @ [closing]"
proof -
  have n: "\<not> length frames < 2" using assms(2) by simp
  from assms(1) n have d: "delays \<noteq> []"
    by (auto simp: process_and_save_gif_def split: if_splits)
  from assms(1) n d obtain m1 points where
    f: "first_frame_pass use_lab rgb2lab (hd frames) color_key = Inr (m1, points)"
    by (cases "first_frame_pass use_lab rgb2lab (hd frames) color_key")
       (auto simp: process_and_save_gif_def Let_def)
  from assms(1) n d f obtain last_map hn ff where
    l: "frames_loop use_lab rgb2lab (width (hd frames)) (height (hd frames)) color_key
        (uniform_delay_of delays) delays 2 (tl frames) (m1, 1, []) = Inr (last_map, hn, ff)"
    by (cases "frames_loop use_lab rgb2lab (width (hd frames)) (height (hd frames)) color_key
        (uniform_delay_of delays) delays 2 (tl frames) (m1, 1, [])")
       (auto simp: process_and_save_gif_def Let_def)
  from assms(1) n d f l obtain closing where
    c: "write_block (uniform_delay_of delays) delays 0 hn (closing_diffs m1 last_map) = Inr closing"
    and b: "blocks = ff @ [closing]"
    by (cases "write_block (uniform_delay_of delays) delays 0 hn (closing_diffs m1 last_map)")
       (auto simp: process_and_save_gif_def Let_def)
  from f l c b show ?thesis by blast
qed

lemma frame_deltas:
  assumes "process_and_save_gif use_lab rgb2lab frames delays color_key = Inr (stamp, blocks)"
    and "2 \<le> length frames"
  shows "length blocks = length frames \<and>
    (\<forall>i. 0 < i \<and> i < length frames \<longrightarrow>
       (\<exists>prev cur delay.
          frame_map use_lab rgb2lab frames color_key (i - 1) = Inr prev \<and>
          frame_map use_lab rgb2lab frames color_key i = Inr cur \<and>
          blocks ! (i - 1) = FrameHeader i delay # map diff_line (frame_diffs prev cur) \<and>
          distinct (map (\<lambda>d. (fst d, fst (snd d))) (frame_diffs prev cur)) \<and>
          set (frame_diffs prev cur) = (\<lambda>k. (fst k, snd k, dict_get cur k)) ` changed prev cur \<and>
          (changed prev cur = {} \<longrightarrow> blocks ! (i - 1) = [FrameHeader i delay]) \<and>
          (frames ! i = frames ! (i - 1) \<longrightarrow> blocks ! (i - 1) = [FrameHeader i delay]) \<and>
          (\<forall>k. changed prev cur = {k} \<longrightarrow>
             blocks ! (i - 1) =
               [FrameHeader i delay, Point (scaled (fst k)) (scaled (snd k)) (dict_get cur k)])))"
proof -
  let ?w = "width (hd frames)" and ?h = "height (hd frames)"
  from process_and_save_gif_parts[OF assms] obtain m1 points last_map hn ff closing where
    f: "first_frame_pass use_lab rgb2lab (hd frames) color_key = Inr (m1, points)"
    and l: "frames_loop use_lab rgb2lab ?w ?h color_key
        (uniform_delay_of delays) delays 2 (tl frames) (m1, 1, []) = Inr (last_map, hn, ff)"
    and b: "blocks = ff @ [closing]"
    by blast
  from frames_loop_blocks[OF l] obtain maps where
    lm: "length maps = length (tl frames)" and lf: "length ff = length (tl frames)"
    and bl: "\<forall>j<length (tl frames).
        collect_frame_pixels use_lab rgb2lab ?w ?h (tl frames ! j) color_key = Inr (maps ! j) \<and>
        (\<exists>delay. ff ! j =
           FrameHeader (1 + j) delay # map diff_line (frame_diffs ((m1 # maps) ! j) (maps ! j)))"
    by auto
  have ne: "frames \<noteq> []" using assms(2) by auto
  have len: "length blocks = length frames" using b lf ne by simp
  have fm0: "frame_map use_lab rgb2lab frames color_key 0 = Inr m1"
    using f by (simp add: frame_map_def)
  have fmS: "frame_map use_lab rgb2lab frames color_key (Suc j) = Inr (maps ! j)"
    if "j < length (tl frames)" for j
    using bl that by (simp add: frame_map_def nth_tl)
  have main: "\<exists>prev cur delay.
          frame_map use_lab rgb2lab frames color_key (i - 1) = Inr prev \<and>
          frame_map use_lab rgb2lab frames color_key i = Inr cur \<and>
          blocks ! (i - 1) = FrameHeader i delay # map diff_line (frame_diffs prev cur) \<and>
          distinct (map (\<lambda>d. (fst d, fst (snd d))) (frame_diffs prev cur)) \<and>
          set (frame_diffs prev cur) = (\<lambda>k. (fst k, snd k, dict_get cur k)) ` changed prev cur \<and>
          (changed prev cur = {} \<longrightarrow> blocks ! (i - 1) = [FrameHeader i delay]) \<and>
          (frames ! i = frames ! (i - 1) \<longrightarrow> blocks ! (i - 1) = [FrameHeader i delay]) \<and>
          (\<forall>k. changed prev cur = {k} \<longrightarrow>
             blocks ! (i - 1) =
               [FrameHeader i delay, Point (scaled (fst k)) (scaled (snd k)) (dict_get cur k)])"
    if i: "0 < i" "i < length frames" for i
  proof -
    obtain j where j: "i = Suc j" using i(1) by (cases i) auto
    have jl: "j < length (tl frames)" using i(2) j by simp
    let ?prev = "(m1 # maps) ! j" and ?cur = "maps ! j"
    from bl jl obtain delay where
      c: "collect_frame_pixels use_lab rgb2lab ?w ?h (tl frames ! j) color_key = Inr ?cur"
      and fj: "ff ! j = FrameHeader i delay # map diff_line (frame_diffs ?prev ?cur)"
      using j by auto
    have bj: "blocks ! (i - 1) = FrameHeader i delay # map diff_line (frame_diffs ?prev ?cur)"
      using fj jl lf j b by (simp add: nth_append)
    have p: "frame_map use_lab rgb2lab frames color_key (i - 1) = Inr ?prev"
    proof (cases j)
      case 0
      then show ?thesis using fm0 j by simp
    next
      case (Suc j')
      then have "j' < length (tl frames)" using jl by simp
      from fmS[OF this] show ?thesis using j Suc by simp
    qed
    have q: "frame_map use_lab rgb2lab frames color_key i = Inr ?cur"
      using fmS[OF jl] j by simp
    have same: "changed ?prev ?cur = {}" if eq: "frames ! i = frames ! (i - 1)"
    proof (cases j)
      case 0
      have "tl frames ! 0 = hd frames" using eq j 0 ne jl by (simp add: nth_tl hd_conv_nth)
      with c 0 have "collect_frame_pixels use_lab rgb2lab ?w ?h (hd frames) color_key = Inr (maps ! 0)"
        by simp
      from same_frame_unchanged[OF f this] show ?thesis using 0 by simp
    next
      case (Suc j')
      have "Inr ?prev = Inr ?cur" using p q eq by (simp add: frame_map_def j Suc split: if_splits)
      then show ?thesis by (simp add: changed_same)
    qed
    have u: "changed ?prev ?cur = {} \<longrightarrow> blocks ! (i - 1) = [FrameHeader i delay]"
      using bj by (simp add: frame_diffs_unchanged)
    have s: "frames ! i = frames ! (i - 1) \<longrightarrow> blocks ! (i - 1) = [FrameHeader i delay]"
      using same u by blast
    have o: "\<forall>k. changed ?prev ?cur = {k} \<longrightarrow>
             blocks ! (i - 1) =
               [FrameHeader i delay, Point (scaled (fst k)) (scaled (snd k)) (dict_get ?cur k)]"
      using bj by (simp add: frame_diffs_single)
    from p q bj frame_diffs_distinct[of ?prev ?cur] frame_diffs_set[of ?prev ?cur] u s o
    show ?thesis by blast
  qed
  from len main show ?thesis by blast
qed

lemma getpixel_in_range:
  assumes "x < w" "y < h" "w \<le> width f" "h \<le> height f" "length (pixels f) = width f * height f"
  shows "\<exists>p. getpixel f x y = Inr p"
proof -
  have "x < width f" "y < height f" using assms by simp_all
  from raster_index_less[OF this] assms(5) \<open>x < width f\<close> \<open>y < height f\<close>
  have "getpixel f x y = Inr (pixels f ! (y * width f + x))" by (simp add: getpixel_def)
  then show ?thesis by blast
qed

lemma frame_pixel_color_total:
  assumes "color_key \<noteq> []" "x < w" "y < h" "w \<le> width f" "h \<le> height f"
    "length (pixels f) = width f * height f"
  shows "\<exists>v. frame_pixel_color use_lab rgb2lab f color_key (x, y) = Inr v"
proof -
  from getpixel_in_range[OF assms(2-6)] obtain p where p: "getpixel f x y = Inr p" by blast
  obtain r g b a where "p = (r, g, b, a)" by (cases p) auto
  with p show ?thesis
    by (simp add: frame_pixel_color_def find_closest_color_nearest[OF assms(1)])
qed

lemma collect_frame_pixels_total:
  assumes "color_key \<noteq> []" "w \<le> width f" "h \<le> height f" "length (pixels f) = width f * height f"
  shows "\<exists>m. collect_frame_pixels use_lab rgb2lab w h f color_key = Inr m"
  unfolding collect_frame_pixels_def
proof (rule fold_err_total)
  fix xy t assume "xy \<in> set (raster w h)"
  then obtain x y where xy: "xy = (x, y)" "x < w" "y < h" by (auto simp: set_raster)
  from frame_pixel_color_total[OF assms(1) xy(2,3) assms(2-4), of use_lab rgb2lab]
  obtain v where "frame_pixel_color use_lab rgb2lab f color_key (x, y) = Inr v" by blast
  then show "\<exists>t'. collect_step use_lab rgb2lab f color_key xy t = Inr t'"
    by (simp add: collect_step_def xy(1))
qed

lemma first_frame_pass_total:
  assumes "color_key \<noteq> []" "length (pixels f) = width f * height f"
  shows "\<exists>m points. first_frame_pass use_lab rgb2lab f color_key = Inr (m, points)"
proof -
  have "\<exists>st. fold_err (first_frame_step use_lab rgb2lab f color_key) (raster (width f) (height f)) ([], []) = Inr st"
  proof (rule fold_err_total)
    fix xy t assume "xy \<in> set (raster (width f) (height f))"
    then obtain x y where xy: "xy = (x, y)" "x < width f" "y < height f" by (auto simp: set_raster)
    from getpixel_in_range[OF xy(2,3) order_refl order_refl assms(2)]
    obtain p where p: "getpixel f x y = Inr p" by blast
    obtain r g b a where "p = (r, g, b, a)" by (cases p) auto
    with p show "\<exists>t'. first_frame_step use_lab rgb2lab f color_key xy t = Inr t'"
      by (cases t) (simp add: first_frame_step_def xy(1) find_closest_color_nearest[OF assms(1)])
  qed
  then show ?thesis by (auto simp: first_frame_pass_def)
qed

lemma write_block_total:
  assumes "i < length delays"
  shows "\<exists>block. write_block ud delays i hn ds = Inr block"
  using assms by (simp add: write_block_def)

lemma frames_loop_total:
  assumes "color_key \<noteq> []" "0 < fn" "fn - 1 + length frames \<le> length delays"
    "\<forall>f\<in>set frames. w \<le> width f \<and> h \<le> height f \<and> length (pixels f) = width f * height f"
  shows "\<exists>res. frames_loop use_lab rgb2lab w h color_key ud delays fn frames st = Inr res"
  using assms(2-4)
proof (induction frames arbitrary: fn st)
  case Nil
  show ?case by (metis frames_loop.simps(1))
next
  case (Cons f fs)
  obtain prev hn acc where st: "st = (prev, hn, acc)" by (cases st) auto
  have wf: "w \<le> width f" "h \<le> height f" "length (pixels f) = width f * height f"
    using Cons.prems(3) by simp_all
  from collect_frame_pixels_total[OF assms(1) wf] obtain cur where
    c: "collect_frame_pixels use_lab rgb2lab w h f color_key = Inr cur" by blast
  have "fn - 1 < length delays" using Cons.prems(2) by simp
  from write_block_total[OF this] obtain block where
    b: "write_block ud delays (fn - 1) hn (frame_diffs prev cur) = Inr block" by blast
  have "\<exists>res. frames_loop use_lab rgb2lab w h color_key ud delays (Suc fn) fs
      (cur, Suc hn, acc @ [block]) = Inr res"
    using Cons.prems by (intro Cons.IH) auto
  then show ?case using b by (simp add: st c)
qed

lemma process_and_save_gif_total:
  assumes "color_key \<noteq> []" "2 \<le> length frames" "length delays = length frames"
    "\<forall>f\<in>set frames. width (hd frames) \<le> width f \<and> height (hd frames) \<le> height f \<and>
                    length (pixels f) = width f * height f"
  shows "\<exists>stamp blocks. process_and_save_gif use_lab rgb2lab frames delays color_key = Inr (stamp, blocks)"
proof -
  have ne: "frames \<noteq> []" "delays \<noteq> []" using assms(2,3) by auto
  have n: "\<not> length frames < 2" using assms(2) by simp
  have "hd frames \<in> set frames" using ne by simp
  with assms(4) have wf1: "length (pixels (hd frames)) = width (hd frames) * height (hd frames)" by blast
  from first_frame_pass_total[OF assms(1) wf1] obtain m1 points where
    f: "first_frame_pass use_lab rgb2lab (hd frames) color_key = Inr (m1, points)" by blast
  have tl: "\<forall>f\<in>set (tl frames). width (hd frames) \<le> width f \<and> height (hd frames) \<le> height f \<and>
                    length (pixels f) = width f * height f"
    using assms(4) ne by (metis list.set_sel(2))
  have "2 - 1 + length (tl frames) \<le> length delays" using assms(2,3) by simp
  from frames_loop_total[OF assms(1) _ this tl, of use_lab rgb2lab "uniform_delay_of delays" "(m1, 1, [])"]
  obtain res where l: "frames_loop use_lab rgb2lab (width (hd frames)) (height (hd frames)) color_key
      (uniform_delay_of delays) delays 2 (tl frames) (m1, 1, []) = Inr res" by auto
  obtain last_map hn ff where res: "res = (last_map, hn, ff)" by (cases res) auto
  have "0 < length delays" using ne by simp
  from write_block_total[OF this] obtain closing where
    c: "write_block (uniform_delay_of delays) delays 0 hn (closing_diffs m1 last_map) = Inr closing"
    by blast
  show ?thesis using n ne f l res c by (simp add: process_and_save_gif_def Let_def)
qed

text \<open>
  C3. An animated sequence (at least two frames) with a non-empty palette, one delay per
  frame and frames that are well formed and no smaller than the first is encoded. For
  every sequence that is encoded there is one block per frame after the first (and the
  closing block), and the block of frame \<open>i\<close> is its header followed by the delta between
  the pixel map of the frame before and its own: one line for each coordinate, of either
  map, at which the two values differ, carrying the new value (\<open>-1\<close> for a pixel that
  became transparent), no coordinate twice and none for an unchanged coordinate. So a
  frame equal to the frame before it, and any frame whose map is unchanged, gives the
  header alone, and a change at a single coordinate gives the header and one line.
\<close>

theorem frame_delta_blocks:
  assumes "2 \<le> length frames"
  shows "(color_key \<noteq> [] \<and> length delays = length frames \<and>
          (\<forall>f\<in>set frames. width (hd frames) \<le> width f \<and> height (hd frames) \<le> height f \<and>
                           length (pixels f) = width f * height f) \<longrightarrow>
          (\<exists>stamp blocks. process_and_save_gif use_lab rgb2lab frames delays color_key = Inr (stamp, blocks))) \<and>
    (\<forall>stamp blocks. process_and_save_gif use_lab rgb2lab frames delays color_key = Inr (stamp, blocks) \<longrightarrow>
       length blocks = length frames \<and>
       (\<forall>i. 0 < i \<and> i < length frames \<longrightarrow>
          (\<exists>prev cur delay.
             frame_map use_lab rgb2lab frames color_key (i - 1) = Inr prev \<and>
             frame_map use_lab rgb2lab frames color_key i = Inr cur \<and>
             blocks ! (i - 1) = FrameHeader i delay # map diff_line (frame_diffs prev cur) \<and>
             distinct (map (\<lambda>d. (fst d, fst (snd d))) (frame_diffs prev cur)) \<and>
             set (frame_diffs prev cur) = (\<lambda>k. (fst k, snd k, dict_get cur k)) ` changed prev cur \<and>
             (changed prev cur = {} \<longrightarrow> blocks ! (i - 1) = [FrameHeader i delay]) \<and>
             (frames ! i = frames ! (i - 1) \<longrightarrow> blocks ! (i - 1) = [FrameHeader i delay]) \<and>
             (\<forall>k. changed prev cur = {k} \<longrightarrow>
                blocks ! (i - 1) =
                  [FrameHeader i delay, Point (scaled (fst k)) (scaled (snd k)) (dict_get cur k)]))))"
proof (intro conjI impI allI)
  assume "color_key \<noteq> [] \<and> length delays = length frames \<and>
          (\<forall>f\<in>set frames. width (hd frames) \<le> width f \<and> height (hd frames) \<le> height f \<and>
                           length (pixels f) = width f * height f)"
  then show "\<exists>stamp blocks. process_and_save_gif use_lab rgb2lab frames delays color_key = Inr (stamp, blocks)"
    using process_and_save_gif_total[OF _ assms] by blast
next
  fix stamp blocks
  assume "process_and_save_gif use_lab rgb2lab frames delays color_key = Inr (stamp, blocks)"
  from frame_deltas[OF this assms] show "length blocks = length frames" by blast
next
  fix stamp blocks i
  assume p: "process_and_save_gif use_lab rgb2lab frames delays color_key = Inr (stamp, blocks)"
    and i: "0 < i \<and> i < length frames"
  from frame_deltas[OF p assms] i
  show "\<exists>prev cur delay.
             frame_map use_lab rgb2lab frames color_key (i - 1) = Inr prev \<and>
             frame_map use_lab rgb2lab frames color_key i = Inr cur \<and>
             blocks ! (i - 1) = FrameHeader i delay # map diff_line (frame_diffs prev cur) \<and>
             distinct (map (\<lambda>d. (fst d, fst (snd d))) (frame_diffs prev cur)) \<and>
             set (frame_diffs prev cur) = (\<lambda>k. (fst k, snd k, dict_get cur k)) ` changed prev cur \<and>
             (changed prev cur = {} \<longrightarrow> blocks ! (i - 1) = [FrameHeader i delay]) \<and>
             (frames ! i = frames ! (i - 1) \<longrightarrow> blocks ! (i - 1) = [FrameHeader i delay]) \<and>
             (\<forall>k. changed prev cur = {k} \<longrightarrow>
                blocks ! (i - 1) =
                  [FrameHeader i delay, Point (scaled (fst k)) (scaled (snd k)) (dict_get cur k)])"
    by blast
qed

theorem frame_delta_blocks_witness:
  "2 \<le> length three_frames \<and>
   process_and_save_gif False id three_frames [100, 100, 100] bw_color_key =
     Inr ([GifHeader (1 / 5) (1 / 5) 3 100, Point 0 0 0, Point (1 / 10) 0 0,
           Point 0 (1 / 10) 0, Point (1 / 10) (1 / 10) 0],
          [[FrameHeader 1 None], [FrameHeader 2 None, Point (1 / 10) 0 1],
           [FrameHeader 3 None, Point (1 / 10) 0 0]]) \<and>
   three_frames ! 1 = three_frames ! 0 \<and>
   length [[FrameHeader 1 None], [FrameHeader 2 None, Point (1 / 10) 0 1],
           [FrameHeader 3 None, Point (1 / 10) 0 0]] = length three_frames \<and>
   (\<exists>delay. [[FrameHeader 1 None], [FrameHeader 2 None, Point (1 / 10) 0 1],
           [FrameHeader 3 None, Point (1 / 10) 0 0]] ! 0 = [FrameHeader 1 delay])"
proof -
  let ?stamp = "[GifHeader (1 / 5) (1 / 5) 3 100, Point 0 0 0, Point (1 / 10) 0 0,
           Point 0 (1 / 10) 0, Point (1 / 10) (1 / 10) 0]"
  let ?blocks = "[[FrameHeader 1 None], [FrameHeader 2 None, Point (1 / 10) 0 1],
           [FrameHeader 3 None, Point (1 / 10) 0 0]]"
  have l: "2 \<le> length three_frames" by (simp add: three_frames_def)
  have p: "process_and_save_gif False id three_frames [100, 100, 100] bw_color_key = Inr (?stamp, ?blocks)"
    by code_simp
  have e: "three_frames ! 1 = three_frames ! 0" by (simp add: three_frames_def)
  note t = frame_delta_blocks[OF l, THEN conjunct2, rule_format, OF p]
  from t have a: "length ?blocks = length three_frames" by (rule conjunct1)
  have i: "0 < (1::nat) \<and> 1 < length three_frames" by (simp add: three_frames_def)
  from t[THEN conjunct2, rule_format, OF i] obtain delay where
    "three_frames ! 1 = three_frames ! (1 - 1) \<longrightarrow> ?blocks ! (1 - 1) = [FrameHeader 1 delay]"
    by blast
  with e have "\<exists>delay. ?blocks ! 0 = [FrameHeader 1 delay]" by auto
  with l p e a show ?thesis by blast
qed

section \<open>The closing delta\<close>

lemma closing_diffs_filter:
  "closing_diffs first_map last_map =
     map (\<lambda>k. (fst k, snd k, if dict_get last_map k = - 1 then - 1 else dict_get first_map k))
       (filter (\<lambda>k. dict_get first_map k \<noteq> dict_get last_map k) (all_positions first_map last_map))"
proof -
  have "concat (map (\<lambda>xy. case xy of (x, y) \<Rightarrow>
        (let first_color_num = dict_get first_map (x, y);
             last_color_num = dict_get last_map (x, y)
         in if first_color_num \<noteq> last_color_num
            then (if first_color_num = - 1 then [(x, y, first_color_num)]
                  else if last_color_num = - 1 then [(x, y, - 1)]
                  else [(x, y, first_color_num)])
            else [])) ps) =
     map (\<lambda>k. (fst k, snd k, if dict_get last_map k = - 1 then - 1 else dict_get first_map k))
       (filter (\<lambda>k. dict_get first_map k \<noteq> dict_get last_map k) ps)" for ps
    by (induction ps) (auto simp: Let_def)
  then show ?thesis by (simp add: closing_diffs_def)
qed

lemma replay_map_of:
  "map_of (replay (map (\<lambda>k. (fst k, snd k, v k)) ks) m) k' =
     (if k' \<in> set ks then Some (v k') else map_of m k')"
proof -
  have "map_of (fold (\<lambda>d m'. case d of (x, y, c) \<Rightarrow> AList.update (x, y) c m')
          (map (\<lambda>k. (fst k, snd k, v k)) ks) m) k' =
     (if k' \<in> set ks then Some (v k') else map_of m k')" for m
    by (induction ks arbitrary: m) (auto simp: update_conv')
  then show ?thesis by (simp add: replay_def)
qed

lemma replay_closing_value:
  "dict_get (replay (closing_diffs first_map last_map) last_map) k =
     (if dict_get last_map k = - 1 then - 1 else dict_get first_map k)"
proof (cases "dict_get first_map k = dict_get last_map k")
  case True
  then show ?thesis
    by (simp add: closing_diffs_filter replay_map_of dict_get_def[of "replay _ _"])
       (simp add: dict_get_def)
next
  case False
  then have "map_of first_map k \<noteq> None \<or> map_of last_map k \<noteq> None"
    by (auto simp: dict_get_def split: option.splits)
  then have "k \<in> fst ` set first_map \<or> k \<in> fst ` set last_map"
    by (auto simp: map_of_eq_None_iff)
  then have "k \<in> set (all_positions first_map last_map)"
    by (simp add: all_positions_props)
  with False show ?thesis
    by (simp add: closing_diffs_filter replay_map_of dict_get_def[of "replay _ _"])
qed

text \<open>
  C4. Replaying the closing delta on the last frame's map gives, at every coordinate,
  the value of the first frame's map where the last frame is not transparent, and \<open>-1\<close>
  where the last frame is transparent: a pixel that is visible in the first frame and
  transparent in the last is not restored. For two frames of one pixel, grey and opaque
  in the first and transparent in the second, with a white and a black palette entry:
  the first frame's map holds colour 1 at \<open>(0, 0)\<close>, the last frame's map holds \<open>-1\<close>,
  the closing delta is the line \<open>(0, 0, -1)\<close>, and replaying it on the last frame's map
  leaves \<open>-1\<close> where the first frame's map has 1.
\<close>

theorem closing_delta_reappearing_pixel:
  "dict_get (replay (closing_diffs first_map last_map) last_map) k =
     (if dict_get last_map k = - 1 then - 1 else dict_get first_map k) \<and>
   process_and_save_gif False id vanishing_frames [100, 100] bw_color_key =
     Inr ([GifHeader (1 / 10) (1 / 10) 2 100, Point 0 0 1],
          [[FrameHeader 1 None, Point 0 0 (- 1)], [FrameHeader 2 None, Point 0 0 (- 1)]]) \<and>
   frame_map False id vanishing_frames bw_color_key 0 = Inr [((0, 0), 1)] \<and>
   frame_map False id vanishing_frames bw_color_key 1 = Inr [((0, 0), - 1)] \<and>
   closing_diffs [((0, 0), 1)] [((0, 0), - 1)] = [(0, 0, - 1)] \<and>
   dict_get (replay (closing_diffs [((0, 0), 1)] [((0, 0), - 1)]) [((0, 0), - 1)]) (0, 0) = - 1 \<and>
   dict_get [((0, 0), 1)] (0, 0) = 1"
  by (rule conjI[OF replay_closing_value]) code_simp


end
